theory Spec2Isabelle
  imports Complex_Main
begin

text \<open>
  A model of \<open>exp/synthetic/OracleInpainter.py\<close>: the constructor of the oracle
  inpainter, its label inference, background generation and compositing, and the two mask
  generators. Tensors are nested lists of real numbers, so the rounding of floating-point
  arithmetic is left out, while the one division the code performs keeps its
  floating-point outcome for a zero divisor. Exceptions are values of a sum type. Random
  draws are read from an explicit random source. What the file imports from the dataset
  module and the median filter module is passed in as parameters. The semantics of the
  tensor library is that of the versions with tensors of no axes, where \<open>squeeze\<close>
  of a tensor of one element leaves such a tensor.
\<close>

section \<open>Errors and strings\<close>

text \<open>
  The exceptions the modelled Python code can raise. \<open>AssertionError\<close> carries the
  message of the failed \<open>assert\<close>; the others are raised by the tensor and array
  libraries the code calls. \<open>NotModelled\<close> is no exception: it marks the one path the
  model leaves out, a cell-wise operation on two tensors of unequal shape, which the
  tensor library either broadcasts or rejects.
\<close>

datatype error =
    AssertionError string
  | TypeError
  | IndexError
  | RuntimeError
  | ValueError
  | ZeroDivisionError
  | NotModelled

definition ebind :: "error + 'a \<Rightarrow> ('a \<Rightarrow> error + 'b) \<Rightarrow> error + 'b" where
  "ebind m f = (case m of Inl e \<Rightarrow> Inl e | Inr v \<Rightarrow> f v)"

text \<open>The results of a list of computations, or the first error among them.\<close>

fun collect :: "(error + 'a) list \<Rightarrow> error + 'a list" where
  "collect [] = Inr []"
| "collect (Inl e # rs) = Inl e"
| "collect (Inr v # rs) = (case collect rs of Inl e \<Rightarrow> Inl e | Inr vs \<Rightarrow> Inr (v # vs))"

text \<open>
  \<open>str.lower()\<close> on the characters a HOL \<open>string\<close> can hold. Only the ASCII capitals
  are mapped; Python maps a capital beyond ASCII to a letter beyond ASCII, which no
  member of the list of supported modes contains, so membership is decided alike.
\<close>

definition lower_char :: "char \<Rightarrow> char" where
  "lower_char c =
     (let n = (of_char c :: nat) in if 65 \<le> n \<and> n \<le> 90 then char_of (n + 32) else c)"

definition lower :: "string \<Rightarrow> string" where
  "lower s = map lower_char s"

section \<open>The oracle inpainter's constructor\<close>

datatype filter_class = MedianPool2d | AvgPool2d

record oracle_inpainter =
  filter_kind :: filter_class
  kernel_size :: nat
  stride :: nat

text \<open>
  \<open>OracleInpainter.__init__(mode)\<close>. The class constant \<open>MixtureOfBlocks.block_width\<close>
  belongs to the dataset module and is taken as the parameter \<open>block_width\<close>. The assertion
  comes before the filter is built, so a failed assertion returns no inpainter.
\<close>

definition OracleInpainter_init :: "nat \<Rightarrow> string \<Rightarrow> error + oracle_inpainter" where
  "OracleInpainter_init block_width mode =
     (if lower mode \<in> set [''median'', ''avg'', ''average'']
      then Inr \<lparr> filter_kind = (if lower mode = ''median'' then MedianPool2d else AvgPool2d),
                 kernel_size = block_width,
                 stride = block_width div 2 \<rparr>
      else Inl (AssertionError ''unsupported mode''))"

section \<open>Arrays\<close>

text \<open>
  A two-dimensional array is a list of rows, an image a list of channels (C x H x W) and
  a batch a list of images (N x C x H x W). Cell values are real numbers: the rounding of
  the floating-point cells of the source is not modelled.
\<close>

type_synonym grid = "real list list"
type_synonym image = "grid list"
type_synonym batch = "image list"

text \<open>
  The bounds of a Python slice \<open>[start:stop]\<close> over a sequence of length \<open>n\<close>: a negative
  bound counts from the end, and every bound is clipped to \<open>0..n\<close>.
\<close>

definition slice_bound :: "int \<Rightarrow> nat \<Rightarrow> nat" where
  "slice_bound i n = (if i < 0 then nat (max 0 (i + int n)) else min (nat i) n)"

definition in_slice :: "int \<Rightarrow> int \<Rightarrow> nat \<Rightarrow> nat \<Rightarrow> bool" where
  "in_slice start stop n i \<longleftrightarrow> slice_bound start n \<le> i \<and> i < slice_bound stop n"

definition py_slice :: "int \<Rightarrow> int \<Rightarrow> 'a list \<Rightarrow> 'a list" where
  "py_slice start stop xs =
     (let n = length xs; lo = slice_bound start n; hi = slice_bound stop n
      in take (hi - lo) (drop lo xs))"

text \<open>\<open>np.zeros(im_shape)\<close> for a two-dimensional shape.\<close>

definition zeros :: "nat \<times> nat \<Rightarrow> grid" where
  "zeros im_shape = replicate (fst im_shape) (replicate (snd im_shape) 0)"

text \<open>The in-place update \<open>a[rs:re, cs:ce] += v\<close>.\<close>

definition add_patch :: "grid \<Rightarrow> int \<Rightarrow> int \<Rightarrow> int \<Rightarrow> int \<Rightarrow> real \<Rightarrow> grid" where
  "add_patch a rs re cs ce v =
     map (\<lambda>(r, row).
            map (\<lambda>(c, x). if in_slice rs re (length a) r \<and> in_slice cs ce (length row) c
                           then x + v else x)
                (zip [0..<length row] row))
         (zip [0..<length a] a)"

text \<open>
  \<open>np.roll(a, shift, 1)\<close>: every row is rotated to the right by \<open>shift\<close> places, the
  shift being reduced modulo the row length (modulo 1 for an empty row), as numpy does.
\<close>

definition roll_row :: "int \<Rightarrow> 'a list \<Rightarrow> 'a list" where
  "roll_row shift xs =
     (let n = length xs; off = nat (shift mod int (if n = 0 then 1 else n))
      in drop (n - off) xs @ take (n - off) xs)"

definition roll :: "grid \<Rightarrow> int \<Rightarrow> grid" where
  "roll a shift = map (roll_row shift) a"

text \<open>Cell-wise product and sum of two arrays of one shape, and \<open>c - a\<close> for a scalar \<open>c\<close>.\<close>

definition g_mul :: "grid \<Rightarrow> grid \<Rightarrow> grid" where
  "g_mul a b = map2 (map2 (*)) a b"

definition g_add :: "grid \<Rightarrow> grid \<Rightarrow> grid" where
  "g_add a b = map2 (map2 (+)) a b"

definition g_rsub :: "real \<Rightarrow> grid \<Rightarrow> grid" where
  "g_rsub c a = map (map (\<lambda>v. c - v)) a"

section \<open>Tensors\<close>

text \<open>
  The size of each axis of a four-dimensional tensor, and the lengths of all its rows. Two
  tensors have one shape when the lengths of their rows agree throughout.
\<close>

definition tensor_shape :: "batch \<Rightarrow> nat \<times> nat \<times> nat \<times> nat" where
  "tensor_shape t =
     (length t,
      (case t of [] \<Rightarrow> 0 | img # _ \<Rightarrow> length img),
      (case concat t of [] \<Rightarrow> 0 | g # _ \<Rightarrow> length g),
      (case concat (concat t) of [] \<Rightarrow> 0 | row # _ \<Rightarrow> length row))"

definition row_lengths :: "batch \<Rightarrow> nat list list list" where
  "row_lengths t = map (map (map length)) t"

text \<open>Cell-wise operations: scalar minus tensor, tensor times scalar, product and sum.\<close>

definition t_rsub :: "real \<Rightarrow> batch \<Rightarrow> batch" where
  "t_rsub a t = map (map (map (map (\<lambda>v. a - v)))) t"

definition t_smul :: "batch \<Rightarrow> real \<Rightarrow> batch" where
  "t_smul t a = map (map (map (map (\<lambda>v. v * a)))) t"

definition cellwise :: "(real \<Rightarrow> real \<Rightarrow> real) \<Rightarrow> batch \<Rightarrow> batch \<Rightarrow> error + batch" where
  "cellwise f a b =
     (if row_lengths a = row_lengths b then Inr (map2 (map2 (map2 (map2 f))) a b)
      else Inl NotModelled)"

definition t_mul :: "batch \<Rightarrow> batch \<Rightarrow> error + batch" where
  "t_mul a b = cellwise (*) a b"

definition t_add :: "batch \<Rightarrow> batch \<Rightarrow> error + batch" where
  "t_add a b = cellwise (+) a b"

text \<open>
  \<open>torch.randn(n, c, h, w)\<close>: a tensor of the given shape whose cell \<open>(i, j, k, l)\<close> holds
  the value \<open>z i j k l\<close> drawn by the random source.
\<close>

definition randn :: "(nat \<Rightarrow> nat \<Rightarrow> nat \<Rightarrow> nat \<Rightarrow> real) \<Rightarrow> nat \<times> nat \<times> nat \<times> nat \<Rightarrow> batch" where
  "randn z shp =
     (case shp of (n, c, h, w) \<Rightarrow>
        map (\<lambda>i. map (\<lambda>j. map (\<lambda>k. map (\<lambda>l. z i j k l) [0..<w]) [0..<h]) [0..<c]) [0..<n])"

text \<open>
  \<open>torch.nn.AvgPool2d(kernel_size, stride)\<close> without padding: the mean of every
  \<open>kernel_size\<close> x \<open>kernel_size\<close> window, the windows \<open>stride\<close> cells apart. The library
  rejects an empty kernel, a zero stride and an input smaller than the kernel.
\<close>

definition pool_windows :: "nat \<Rightarrow> nat \<Rightarrow> 'a list \<Rightarrow> 'a list list" where
  "pool_windows k s xs = map (\<lambda>i. take k (drop (i * s) xs)) [0..<(length xs - k) div s + 1]"

definition avg_pool_grid :: "nat \<Rightarrow> nat \<Rightarrow> grid \<Rightarrow> grid" where
  "avg_pool_grid k s g =
     map (\<lambda>band.
            map (\<lambda>j. sum_list (map (\<lambda>row. sum_list (take k (drop (j * s) row))) band) / real (k * k))
                [0..<((case g of [] \<Rightarrow> 0 | row # _ \<Rightarrow> length row) - k) div s + 1])
         (pool_windows k s g)"

definition avg_pool2d :: "nat \<Rightarrow> nat \<Rightarrow> batch \<Rightarrow> error + batch" where
  "avg_pool2d k s t =
     (case tensor_shape t of (n, c, h, w) \<Rightarrow>
        if k = 0 \<or> s = 0 \<or> h < k \<or> w < k then Inl RuntimeError
        else Inr (map (map (avg_pool_grid k s)) t))"

text \<open>
  \<open>t.view(n, -1)\<close> of a contiguous tensor: its cells in row-major order, cut into \<open>n\<close> rows
  of one length. The library rejects a tensor without cells and a cell count that \<open>n\<close> does
  not divide.
\<close>

definition view_rows :: "nat \<Rightarrow> batch \<Rightarrow> error + real list list" where
  "view_rows n t =
     (let flat = concat (concat (concat t)); m = length flat
      in if n = 0 \<or> m = 0 \<or> m mod n \<noteq> 0 then Inl RuntimeError
         else Inr (map (\<lambda>i. take (m div n) (drop (i * (m div n)) flat)) [0..<n]))"

text \<open>\<open>F.softmax\<close> of one row.\<close>

definition softmax :: "real list \<Rightarrow> real list" where
  "softmax xs = map (\<lambda>v. exp v / sum_list (map exp xs)) xs"

text \<open>
  The quotient of two floating-point numbers: a division by zero raises nothing, it
  yields an infinity, or not-a-number for 0 / 0.
\<close>

datatype fval = Fin real | PInf | NInf | NaN

definition fdiv :: "real \<Rightarrow> real \<Rightarrow> fval" where
  "fdiv a b =
     (if b \<noteq> 0 then Fin (a / b) else if a = 0 then NaN else if 0 < a then PInf else NInf)"

text \<open>
  An array of any number of axes, as numpy has them; \<open>squeeze\<close> removes every axis of
  size 1, and iterating over an array without axes raises \<open>TypeError\<close>.
\<close>

datatype 'a ndarray = Scalar 'a | Array "'a ndarray list"

fun squeeze :: "'a ndarray \<Rightarrow> 'a ndarray" where
  "squeeze (Scalar a) = Scalar a"
| "squeeze (Array [t]) = squeeze t"
| "squeeze (Array ts) = Array (map squeeze ts)"

definition of_matrix :: "'a list list \<Rightarrow> 'a ndarray" where
  "of_matrix rows = Array (map (\<lambda>row. Array (map Scalar row)) rows)"

definition py_iter :: "'a ndarray \<Rightarrow> error + 'a ndarray list" where
  "py_iter a = (case a of Scalar _ \<Rightarrow> Inl TypeError | Array ts \<Rightarrow> Inr ts)"

text \<open>\<open>t.max(-1)[0]\<close> of one row: the library rejects an empty row.\<close>

definition max_last :: "real list \<Rightarrow> error + real" where
  "max_last xs = (case xs of [] \<Rightarrow> Inl RuntimeError | v # vs \<Rightarrow> Inr (fold max vs v))"

definition clamp :: "real \<Rightarrow> real \<Rightarrow> real \<Rightarrow> real" where
  "clamp lo hi v = min (max v lo) hi"

text \<open>\<open>torch.stack(imgs, 0)\<close>: the library rejects an empty list and images of unequal shape.\<close>

definition stack :: "image list \<Rightarrow> error + batch" where
  "stack imgs =
     (case imgs of [] \<Rightarrow> Inl RuntimeError
      | img # _ \<Rightarrow> if \<forall>i \<in> set imgs. map (map length) i = map (map length) img
                    then Inr imgs else Inl RuntimeError)"

section \<open>The oracle inpainter's operations\<close>

text \<open>
  What the inpainter takes from modules that are not part of the modelled sources: the
  constant \<open>MixtureOfBlocks.noise_level\<close>, the image generator
  \<open>MixtureOfBlocks.generate_image(beta, label)\<close>, taken to return an image (a list of
  channels) or to fail, and the median filter \<open>MedianPool2d(kernel_size, stride)\<close>.
\<close>

record externals =
  noise_level :: real
  generate_image :: "real ndarray \<Rightarrow> nat ndarray \<Rightarrow> error + image"
  median_pool :: "nat \<Rightarrow> nat \<Rightarrow> batch \<Rightarrow> error + batch"

text \<open>
  The random draws: \<open>normal i j k l\<close> is the standard-normal sample that \<open>torch.randn\<close>
  puts into cell \<open>(i, j, k, l)\<close>, and \<open>multinomial_draw n probs\<close> the index that
  \<open>torch.multinomial\<close> samples for row \<open>n\<close> from the weights \<open>probs\<close>, or its failure.
\<close>

record random_source =
  normal :: "nat \<Rightarrow> nat \<Rightarrow> nat \<Rightarrow> nat \<Rightarrow> real"
  multinomial_draw :: "nat \<Rightarrow> fval list \<Rightarrow> error + nat"

text \<open>\<open>self.filt\<close>, the filter chosen by the constructor.\<close>

definition filt :: "externals \<Rightarrow> oracle_inpainter \<Rightarrow> batch \<Rightarrow> error + batch" where
  "filt ext self t =
     (case filter_kind self of
        MedianPool2d \<Rightarrow> median_pool ext (kernel_size self) (stride self) t
      | AvgPool2d \<Rightarrow> avg_pool2d (kernel_size self) (stride self) t)"

text \<open>\<open>xm = (1. - mask)*x + mask*noise_level*torch.randn(*mask.shape)\<close>.\<close>

definition masked_input :: "externals \<Rightarrow> random_source \<Rightarrow> batch \<Rightarrow> batch \<Rightarrow> error + batch" where
  "masked_input ext rnd x msk =
     ebind (t_mul (t_rsub 1 msk) x) (\<lambda>visible.
     ebind (t_mul (t_smul msk (noise_level ext)) (randn (normal rnd) (tensor_shape msk))) (\<lambda>noise.
     t_add visible noise))"

text \<open>\<open>logits[:, :, 1:-1, 1:-1]\<close>.\<close>

definition crop :: "batch \<Rightarrow> batch" where
  "crop logits = map (map (\<lambda>g. map (py_slice 1 (- 1)) (py_slice 1 (- 1) g))) logits"

text \<open>\<open>torch.sort(row, descending=True)[0]\<close>.\<close>

definition sort_desc :: "real list \<Rightarrow> real list" where
  "sort_desc ps = rev (sort ps)"

text \<open>
  The heuristic of one row: \<open>label_probs*(label_probs > sorted_probs[2]).float()\<close>, and
  the division by the row sum.
\<close>

definition take_top_two :: "real list \<Rightarrow> real list" where
  "take_top_two ps =
     (let sorted_probs = sort_desc ps
      in map (\<lambda>p. p * (if sorted_probs ! 2 < p then 1 else 0)) ps)"

definition renormalise :: "real list \<Rightarrow> fval list" where
  "renormalise ps = map (\<lambda>p. fdiv p (sum_list ps)) ps"

text \<open>
  \<open>infer_label_probs(x, mask)\<close>, with \<open>imshape\<close> left at its default. Indexing the sorted
  rows at position 2 raises \<open>IndexError\<close> when the rows have fewer than three entries.
\<close>

definition infer_label_probs ::
  "externals \<Rightarrow> random_source \<Rightarrow> oracle_inpainter \<Rightarrow> batch \<Rightarrow> batch \<Rightarrow> error + fval list list" where
  "infer_label_probs ext rnd self x msk =
     ebind (masked_input ext rnd x msk) (\<lambda>xm.
     ebind (filt ext self xm) (\<lambda>logits.
     ebind (view_rows (length x) (crop logits)) (\<lambda>rows.
       (let label_probs = map softmax rows
        in if list_ex (\<lambda>row. length row \<le> 2) label_probs then Inl IndexError
           else Inr (map (\<lambda>ps. renormalise (take_top_two ps)) label_probs)))))"

text \<open>
  With \<open>imshape=True\<close> the same values are returned in the shape of the cropped logits,
  for plotting.
\<close>

definition view_as :: "nat \<times> nat \<times> nat \<times> nat \<Rightarrow> 'a list \<Rightarrow> 'a list list list list" where
  "view_as shp flat =
     (case shp of (n, c, h, w) \<Rightarrow>
        map (\<lambda>i. map (\<lambda>j. map (\<lambda>k. map (\<lambda>l. flat ! (((i * c + j) * h + k) * w + l))
                                        [0..<w]) [0..<h]) [0..<c]) [0..<n])"

definition infer_label_probs_imshape ::
  "externals \<Rightarrow> random_source \<Rightarrow> oracle_inpainter \<Rightarrow> batch \<Rightarrow> batch \<Rightarrow>
   error + fval list list list list" where
  "infer_label_probs_imshape ext rnd self x msk =
     ebind (masked_input ext rnd x msk) (\<lambda>xm.
     ebind (filt ext self xm) (\<lambda>logits.
     ebind (infer_label_probs ext rnd self x msk) (\<lambda>label_probs.
       Inr (view_as (tensor_shape (crop logits)) (concat label_probs)))))"

text \<open>
  \<open>torch.multinomial(label_probs, 1, replacement=True)\<close>: one sampled index for every row,
  in a tensor of shape N x 1.
\<close>

definition multinomial :: "random_source \<Rightarrow> fval list list \<Rightarrow> error + nat list list" where
  "multinomial rnd label_probs =
     collect (map (\<lambda>(n, row). ebind (multinomial_draw rnd n row) (\<lambda>l. Inr [l]))
                  (zip [0..<length label_probs] label_probs))"

text \<open>\<open>x.max(-1)[0].max(-1)[0]\<close>: the largest cell of every channel of every image.\<close>

definition max_pixels :: "batch \<Rightarrow> error + real list list" where
  "max_pixels x =
     collect (map (\<lambda>img. collect (map (\<lambda>g. ebind (collect (map max_last g)) max_last) img)) x)"

text \<open>
  \<open>betas = x.max(-1)[0].max(-1)[0].clamp(0., 1.).squeeze()\<close>, the estimate of the
  intensity of every image.
\<close>

definition betas :: "batch \<Rightarrow> error + real ndarray" where
  "betas x =
     ebind (max_pixels x) (\<lambda>maxima. Inr (squeeze (of_matrix (map (map (clamp 0 1)) maxima))))"

text \<open>
  \<open>generate_background(x, mask)\<close>. \<open>zip\<close> iterates over both squeezed arrays, the labels
  first, and stops at the end of the shorter.
\<close>

definition generate_background ::
  "externals \<Rightarrow> random_source \<Rightarrow> oracle_inpainter \<Rightarrow> batch \<Rightarrow> batch \<Rightarrow> error + batch" where
  "generate_background ext rnd self x msk =
     ebind (infer_label_probs ext rnd self x msk) (\<lambda>label_probs.
     ebind (multinomial rnd label_probs) (\<lambda>samples.
       (let label_samps = squeeze (of_matrix samples)
        in ebind (betas x) (\<lambda>bs.
           ebind (py_iter label_samps) (\<lambda>labels.
           ebind (py_iter bs) (\<lambda>beta_list.
           ebind (collect (map (\<lambda>(label, beta). generate_image ext beta label)
                               (zip labels beta_list))) (\<lambda>infill.
           stack infill)))))))"

text \<open>\<open>impute_missing_imgs(x, mask)\<close>: \<open>x * mask + backgnd * (1. - mask)\<close>.\<close>

definition composite :: "batch \<Rightarrow> batch \<Rightarrow> batch \<Rightarrow> error + batch" where
  "composite x msk backgnd =
     ebind (t_mul x msk) (\<lambda>kept.
     ebind (t_mul backgnd (t_rsub 1 msk)) (\<lambda>filled.
     t_add kept filled))"

definition impute_missing_imgs ::
  "externals \<Rightarrow> random_source \<Rightarrow> oracle_inpainter \<Rightarrow> batch \<Rightarrow> batch \<Rightarrow> error + batch" where
  "impute_missing_imgs ext rnd self x msk =
     ebind (generate_background ext rnd self x msk) (\<lambda>backgnd. composite x msk backgnd)"

section \<open>Mask generators\<close>

text \<open>\<open>int(n ** 0.5)\<close>: the integer part of the square root.\<close>

primrec isqrt_upto :: "nat \<Rightarrow> nat \<Rightarrow> nat" where
  "isqrt_upto n 0 = 0"
| "isqrt_upto n (Suc k) = (if Suc k * Suc k \<le> n then Suc k else isqrt_upto n k)"

definition isqrt :: "nat \<Rightarrow> nat" where
  "isqrt n = isqrt_upto n n"

text \<open>
  \<open>random_mask(im_shape, p)\<close>. \<open>np.random.binomial(1, p, size)\<close> rejects a probability
  outside [0, 1] and otherwise draws every cell as 0 or 1; the draw of cell \<open>(r, c)\<close> is 1
  when the uniform sample \<open>u r c\<close> of the random source lies below \<open>p\<close>. \<open>unsqueeze(0)\<close>
  puts the drawn array under one leading axis.
\<close>

definition binomial1 :: "(nat \<Rightarrow> nat \<Rightarrow> real) \<Rightarrow> real \<Rightarrow> nat \<times> nat \<Rightarrow> error + grid" where
  "binomial1 u p im_shape =
     (if p < 0 \<or> 1 < p then Inl ValueError
      else Inr (map (\<lambda>r. map (\<lambda>c. if u r c < p then 1 else 0) [0..<snd im_shape])
                    [0..<fst im_shape]))"

definition random_mask :: "(nat \<Rightarrow> nat \<Rightarrow> real) \<Rightarrow> nat \<times> nat \<Rightarrow> real \<Rightarrow> error + image" where
  "random_mask u im_shape p =
     (case binomial1 u p im_shape of Inl e \<Rightarrow> Inl e | Inr a \<Rightarrow> Inr [a])"

text \<open>
  \<open>np.random.choice(range(n))\<close>: fails on an empty range, and otherwise returns a member
  of it, here the residue of the raw draw \<open>rnd\<close>.
\<close>

definition random_choice :: "nat \<Rightarrow> nat \<Rightarrow> error + int" where
  "random_choice rnd n = (if n = 0 then Inl ValueError else Inr (int (rnd mod n)))"

text \<open>
  \<open>random_half_block_mask(im_shape, label)\<close>. The dataset module is not part of the
  modelled sources: its function \<open>_label_to_patch_pixels\<close> and its constants
  \<open>block_width\<close> and \<open>num_labels\<close> are parameters. The offset is
  \<open>(-1 or 1) * block_width // 2\<close>, the product taken before the floor division. The
  remainder \<open>label % int(num_labels ** 0.5)\<close> of a Python integer raises
  \<open>ZeroDivisionError\<close> when there is no label at all.
\<close>

definition half_block_offset :: "nat \<Rightarrow> nat \<Rightarrow> int \<Rightarrow> error + int" where
  "half_block_offset block_width num_labels label =
     (if isqrt num_labels = 0 then Inl ZeroDivisionError
      else Inr (((if label mod int (isqrt num_labels) < 2 then - 1 else 1) * int block_width) div 2))"

definition default_label :: "nat \<Rightarrow> nat \<Rightarrow> int option \<Rightarrow> error + int" where
  "default_label rnd num_labels label_opt =
     (case label_opt of None \<Rightarrow> random_choice rnd (2 * num_labels) | Some l \<Rightarrow> Inr l)"

definition random_half_block_mask ::
  "(int \<Rightarrow> nat \<Rightarrow> nat \<Rightarrow> int \<times> int \<times> int \<times> int) \<Rightarrow> nat \<Rightarrow> nat \<Rightarrow> nat \<Rightarrow>
   nat \<times> nat \<Rightarrow> int option \<Rightarrow> error + image" where
  "random_half_block_mask label_to_patch_pixels block_width num_labels rnd im_shape label_opt =
     (case default_label rnd num_labels label_opt of
        Inl e \<Rightarrow> Inl e
      | Inr label \<Rightarrow>
          (case label_to_patch_pixels label block_width (block_width div 2) of
             (row_start, row_end, col_start, col_end) \<Rightarrow>
               (let block = add_patch (zeros im_shape) row_start row_end col_start col_end 1
                in case half_block_offset block_width num_labels label of
                     Inl e \<Rightarrow> Inl e
                   | Inr offset \<Rightarrow>
                       (let mask = g_mul block (roll block offset);
                            mask = g_add mask (g_mul (g_rsub 1 block) (roll block (- offset)))
                        in Inr [mask]))))"

section \<open>Vocabulary of the properties\<close>

text \<open>A grid given by its cell function.\<close>

definition tabulate2 :: "nat \<Rightarrow> nat \<Rightarrow> (nat \<Rightarrow> nat \<Rightarrow> real) \<Rightarrow> grid" where
  "tabulate2 h w f = map (\<lambda>r. map (\<lambda>c. f r c) [0..<w]) [0..<h]"

text \<open>A grid all of whose cells are 0 or 1.\<close>

definition binary_grid :: "grid \<Rightarrow> bool" where
  "binary_grid g \<longleftrightarrow> (\<forall>row \<in> set g. \<forall>v \<in> set row. v = 0 \<or> v = 1)"

text \<open>The set pixels of a grid: the coordinates (row, column) of its non-zero cells.\<close>

definition pixels_set :: "grid \<Rightarrow> (nat \<times> nat) set" where
  "pixels_set g =
     set (concat (map (\<lambda>r. map (\<lambda>c. (r, c)) (filter (\<lambda>c. g ! r ! c \<noteq> 0) [0..<length (g ! r)]))
                      [0..<length g]))"

text \<open>All pixels of an image of the given shape.\<close>

definition all_pixels :: "nat \<times> nat \<Rightarrow> (nat \<times> nat) set" where
  "all_pixels im_shape = {0..<fst im_shape} \<times> {0..<snd im_shape}"

text \<open>
  A set of pixels moved \<open>k\<close> columns to the right, cyclically, in an image \<open>w\<close> columns
  wide. \<open>np.roll(a, k, 1)\<close> moves the set pixels of \<open>a\<close> so.
\<close>

definition shift_cols :: "nat \<Rightarrow> int \<Rightarrow> (nat \<times> nat) set \<Rightarrow> (nat \<times> nat) set" where
  "shift_cols w k S = (\<lambda>(r, c). (r, nat ((int c + k) mod int w))) ` S"

text \<open>The ground-truth patch: the pixels of the block that the slice assignment sets.\<close>

definition patch_pixels :: "nat \<times> nat \<Rightarrow> int \<times> int \<times> int \<times> int \<Rightarrow> (nat \<times> nat) set" where
  "patch_pixels im_shape patch =
     (case patch of (row_start, row_end, col_start, col_end) \<Rightarrow>
        pixels_set (add_patch (zeros im_shape) row_start row_end col_start col_end 1))"

text \<open>
  The value of the half-block mask at row \<open>r\<close> and column \<open>c\<close>: inside the patch, the
  cell of the patch rolled by the offset; outside it, the cell of the patch rolled by the
  negated offset.
\<close>

definition half_block_cell ::
  "nat \<Rightarrow> nat \<Rightarrow> int \<times> int \<times> int \<times> int \<Rightarrow> int \<Rightarrow> nat \<Rightarrow> nat \<Rightarrow> real" where
  "half_block_cell h w patch off r c =
     (case patch of (rs, re, cs, ce) \<Rightarrow>
       (if in_slice rs re h r \<and> in_slice cs ce w c
        then (if in_slice cs ce w (nat ((int c - off) mod int w)) then 1 else 0)
        else (if in_slice rs re h r \<and> in_slice cs ce w (nat ((int c + off) mod int w)) then 1 else 0)))"



text \<open>The cells of a tensor: the indices that lie within it, and the value at an index.\<close>

definition valid_index :: "batch \<Rightarrow> nat \<times> nat \<times> nat \<times> nat \<Rightarrow> bool" where
  "valid_index t idx =
     (case idx of (n, c, i, j) \<Rightarrow>
        n < length t \<and> c < length (t ! n) \<and> i < length (t ! n ! c) \<and> j < length (t ! n ! c ! i))"

definition cell :: "batch \<Rightarrow> nat \<times> nat \<times> nat \<times> nat \<Rightarrow> real" where
  "cell t idx = (case idx of (n, c, i, j) \<Rightarrow> t ! n ! c ! i ! j)"

section \<open>Example inputs\<close>

text \<open>
  A small instance on which the operations are evaluated: images of one channel, four
  rows and six columns, a block width of 2 (so that the filter has kernel size 2 and stride
  1, and the cropped response of an image has three cells), the averaging filter, a
  random source that draws zero noise and samples label 0, and an image generator that
  returns the uniformly gray image.
\<close>

definition gray_image :: image where
  "gray_image =
     [[[1 / 4, 1 / 4, 1 / 4, 1 / 4, 1 / 4, 1 / 4],
       [1 / 4, 1 / 4, 1 / 4, 1 / 4, 1 / 4, 1 / 4],
       [1 / 4, 1 / 4, 1 / 4, 1 / 4, 1 / 4, 1 / 4],
       [1 / 4, 1 / 4, 1 / 4, 1 / 4, 1 / 4, 1 / 4]]]"

definition example_ext :: externals where
  "example_ext =
     \<lparr> noise_level = 1 / 10,
       generate_image = (\<lambda>beta label. Inr gray_image),
       median_pool = (\<lambda>k s t. Inl RuntimeError) \<rparr>"

definition example_rnd :: random_source where
  "example_rnd = \<lparr> normal = (\<lambda>i j k l. 0), multinomial_draw = (\<lambda>n row. Inr 0) \<rparr>"

definition example_inpainter :: oracle_inpainter where
  "example_inpainter = \<lparr> filter_kind = AvgPool2d, kernel_size = 2, stride = 1 \<rparr>"

definition example_image :: image where
  "example_image =
     [[[0, 0, 0, 0, 0, 0],
       [0, 1, 0, 0, 1 / 2, 0],
       [0, 0, 0, 0, 0, 0],
       [0, 0, 0, 0, 0, 0]]]"

definition zero_image :: image where
  "zero_image =
     [[[0, 0, 0, 0, 0, 0],
       [0, 0, 0, 0, 0, 0],
       [0, 0, 0, 0, 0, 0],
       [0, 0, 0, 0, 0, 0]]]"

definition right_half_mask :: image where
  "right_half_mask =
     [[[0, 0, 0, 1, 1, 1],
       [0, 0, 0, 1, 1, 1],
       [0, 0, 0, 1, 1, 1],
       [0, 0, 0, 1, 1, 1]]]"




text \<open>
  The example image with the right half occluded and replaced by the zero noise, and the
  result of imputing it under the mask of the right half.
\<close>

definition masked_example :: image where
  "masked_example =
     [[[0, 0, 0, 0, 0, 0],
       [0, 1, 0, 0, 0, 0],
       [0, 0, 0, 0, 0, 0],
       [0, 0, 0, 0, 0, 0]]]"

definition imputed_example :: image where
  "imputed_example =
     [[[1 / 4, 1 / 4, 1 / 4, 0, 0, 0],
       [1 / 4, 1 / 4, 1 / 4, 0, 1 / 2, 0],
       [1 / 4, 1 / 4, 1 / 4, 0, 0, 0],
       [1 / 4, 1 / 4, 1 / 4, 0, 0, 0]]]"

text \<open>
  Two random sources that draw noise other than zero. They draw the same noise, 1, for the
  three right columns of every grid, which are the cells that the mask of the right half
  occludes; they draw different noise for the three left columns and sample different
  labels. The image below is the example image under the mask of the right half with the
  noise 1 at the noise level 1/10 in the occluded cells.
\<close>

definition noisy_rnd :: random_source where
  "noisy_rnd = \<lparr> normal = (\<lambda>i j k l. 1), multinomial_draw = (\<lambda>n row. Inr 0) \<rparr>"

definition other_noisy_rnd :: random_source where
  "other_noisy_rnd =
     \<lparr> normal = (\<lambda>i j k l. if l < 3 then 7 else 1), multinomial_draw = (\<lambda>n row. Inr 1) \<rparr>"

definition noisy_masked_example :: image where
  "noisy_masked_example =
     [[[0, 0, 0, 1 / 10, 1 / 10, 1 / 10],
       [0, 1, 0, 1 / 10, 1 / 10, 1 / 10],
       [0, 0, 0, 1 / 10, 1 / 10, 1 / 10],
       [0, 0, 0, 1 / 10, 1 / 10, 1 / 10]]]"

section \<open>Theorems\<close>

subsection \<open>The constructor rejects an unsupported mode\<close>

text \<open>
  C7. Constructing the oracle inpainter with a mode whose lower-cased spelling is not one
  of \<open>median\<close>, \<open>avg\<close>, \<open>average\<close> fails with the assertion error
  \<open>unsupported mode\<close>; no filter is built, so no tensor computation has taken place.
  The literal mode \<open>unsupported\<close> is such a mode.
\<close>

theorem OracleInpainter_init_invalid_mode:
  assumes "lower mode \<notin> set [''median'', ''avg'', ''average'']"
  shows "OracleInpainter_init block_width mode = Inl (AssertionError ''unsupported mode'')"
  using assms by (simp add: OracleInpainter_init_def)

theorem OracleInpainter_init_invalid_mode_witness:
  "lower ''unsupported'' \<notin> set [''median'', ''avg'', ''average''] \<and>
   OracleInpainter_init 8 ''unsupported'' = Inl (AssertionError ''unsupported mode'')"
proof -
  have h: "lower ''unsupported'' \<notin> set [''median'', ''avg'', ''average'']"
    by (simp add: lower_def lower_char_def)
  from OracleInpainter_init_invalid_mode [OF h, of 8] h show ?thesis by simp
qed

subsection \<open>Rolling, slicing and tabulated grids\<close>

lemma length_roll_row: "length (roll_row k xs) = length xs"
  by (auto simp: roll_row_def Let_def)

lemma nth_roll_row:
  assumes "i < length xs"
  shows "roll_row k xs ! i = xs ! nat ((int i - k) mod int (length xs))"
proof -
  let ?n = "length xs"
  define off where "off = nat (k mod int ?n)"
  have n0: "0 < ?n" using assms by auto
  have off_lt: "off < ?n" unfolding off_def using n0 by (simp add: nat_less_iff)
  have off_int: "int off = k mod int ?n" unfolding off_def using n0 by simp
  have rr: "roll_row k xs = drop (?n - off) xs @ take (?n - off) xs"
    using n0 by (simp add: roll_row_def Let_def off_def)
  have cong: "(int i - k) mod int ?n = (int i - int off) mod int ?n"
    unfolding off_int by (simp add: mod_diff_right_eq)
  show ?thesis
  proof (cases "i < off")
    case True
    have "(int i - int off + int ?n) mod int ?n = int i - int off + int ?n"
      using True off_lt by (intro mod_pos_pos_trivial) simp_all
    then have "(int i - int off) mod int ?n = int i - int off + int ?n"
      by simp
    then have idx: "nat ((int i - k) mod int ?n) = ?n - off + i"
      using cong True off_lt by simp
    show ?thesis using True off_lt by (simp add: rr nth_append idx)
  next
    case False
    have "(int i - int off) mod int ?n = int i - int off"
      using False assms by (simp add: mod_pos_pos_trivial)
    then have idx: "nat ((int i - k) mod int ?n) = i - off"
      using cong False by simp
    show ?thesis using False off_lt assms by (simp add: rr nth_append idx)
  qed
qed

lemma map_zip_upt_replicate:
  "map (\<lambda>(r, row). f r row) (zip [0..<n] (replicate n x)) = map (\<lambda>r. f r x) [0..<n]"
  by (rule nth_equalityI) auto

lemma block_eq:
  "add_patch (zeros (h, w)) rs re cs ce 1 =
     tabulate2 h w (\<lambda>r c. if in_slice rs re h r \<and> in_slice cs ce w c then 1 else 0)"
proof -
  have "add_patch (zeros (h, w)) rs re cs ce 1 =
        map (\<lambda>r. map (\<lambda>(c, x). if in_slice rs re h r \<and> in_slice cs ce w c then x + 1 else x)
                (zip [0..<w] (replicate w 0))) [0..<h]"
    unfolding add_patch_def zeros_def
    by (simp add: map_zip_upt_replicate)
  also have "\<dots> = map (\<lambda>r. map (\<lambda>c. if in_slice rs re h r \<and> in_slice cs ce w c then 1 else 0) [0..<w]) [0..<h]"
    by (simp add: map_zip_upt_replicate [where f = "\<lambda>c x. if P c then x + 1 else x" for P])
  finally show ?thesis by (simp add: tabulate2_def)
qed

lemma shift_index_lt: "c < w \<Longrightarrow> nat ((int c - k) mod int w) < w"
  by (simp add: nat_less_iff)

lemma roll_row_map_upt:
  "roll_row k (map f [0..<w]) = map (\<lambda>c. f (nat ((int c - k) mod int w))) [0..<w]"
  by (rule nth_equalityI) (simp_all add: length_roll_row nth_roll_row shift_index_lt)

lemma roll_tabulate2:
  "roll (tabulate2 h w f) k = tabulate2 h w (\<lambda>r c. f r (nat ((int c - k) mod int w)))"
  by (simp add: roll_def tabulate2_def roll_row_map_upt)

lemma map2_map_upt: "map2 f (map g [0..<n]) (map h [0..<n]) = map (\<lambda>i. f (g i) (h i)) [0..<n]"
  by (rule nth_equalityI) simp_all

lemma g_mul_tabulate2:
  "g_mul (tabulate2 h w f) (tabulate2 h w g) = tabulate2 h w (\<lambda>r c. f r c * g r c)"
  by (simp add: g_mul_def tabulate2_def map2_map_upt)

lemma g_add_tabulate2:
  "g_add (tabulate2 h w f) (tabulate2 h w g) = tabulate2 h w (\<lambda>r c. f r c + g r c)"
  by (simp add: g_add_def tabulate2_def map2_map_upt)

lemma g_rsub_tabulate2:
  "g_rsub a (tabulate2 h w f) = tabulate2 h w (\<lambda>r c. a - f r c)"
  by (simp add: g_rsub_def tabulate2_def)

lemma pixels_set_tabulate2:
  "pixels_set (tabulate2 h w f) = {(r, c). r < h \<and> c < w \<and> f r c \<noteq> 0}"
  by (auto simp: pixels_set_def tabulate2_def)

lemma binary_grid_tabulate2:
  "binary_grid (tabulate2 h w f) \<longleftrightarrow> (\<forall>r<h. \<forall>c<w. f r c = 0 \<or> f r c = 1)"
  by (fastforce simp: binary_grid_def tabulate2_def)

lemma half_block_mask_unfold:
  assumes "default_label rnd nl label_opt = Inr label"
    and "half_block_offset bw nl label = Inr off"
    and "lp label bw (bw div 2) = (rs, re, cs, ce)"
  shows "random_half_block_mask lp bw nl rnd im_shape label_opt =
         Inr [g_add (g_mul (add_patch (zeros im_shape) rs re cs ce 1)
                           (roll (add_patch (zeros im_shape) rs re cs ce 1) off))
                    (g_mul (g_rsub 1 (add_patch (zeros im_shape) rs re cs ce 1))
                           (roll (add_patch (zeros im_shape) rs re cs ce 1) (- off)))]"
  unfolding random_half_block_mask_def assms sum.case prod.case Let_def ..

lemma half_block_mask_eq:
  assumes "default_label rnd nl label_opt = Inr label"
    and "half_block_offset bw nl label = Inr off"
    and "lp label bw (bw div 2) = (rs, re, cs, ce)"
  shows "random_half_block_mask lp bw nl rnd (h, w) label_opt =
         Inr [tabulate2 h w (half_block_cell h w (rs, re, cs, ce) off)]"
proof -
  have "(\<lambda>r c. (if in_slice rs re h r \<and> in_slice cs ce w c then 1 else 0) *
                (if in_slice rs re h r \<and> in_slice cs ce w (nat ((int c - off) mod int w)) then 1 else 0) +
                (1 - (if in_slice rs re h r \<and> in_slice cs ce w c then 1 else 0)) *
                (if in_slice rs re h r \<and> in_slice cs ce w (nat ((int c - (- off)) mod int w)) then 1 else 0))
        = half_block_cell h w (rs, re, cs, ce) off"
    by (intro ext) (simp add: half_block_cell_def)
  then show ?thesis
    unfolding half_block_mask_unfold [where lp = lp, OF assms]
    by (simp only: block_eq roll_tabulate2 g_mul_tabulate2 g_add_tabulate2 g_rsub_tabulate2)
qed

lemma patch_pixels_eq:
  "patch_pixels (h, w) (rs, re, cs, ce) = {(r, c). r < h \<and> c < w \<and> in_slice rs re h r \<and> in_slice cs ce w c}"
  unfolding patch_pixels_def prod.case block_eq pixels_set_tabulate2
  by (intro set_eqI) (simp only: split_paired_all mem_Collect_eq prod.case, simp)

lemma slice_bound_le: "slice_bound i n \<le> n"
  by (auto simp: slice_bound_def max_def)

lemma patch_pixels_rectangle:
  "patch_pixels (h, w) (rs, re, cs, ce) =
     {slice_bound rs h..<slice_bound re h} \<times> {slice_bound cs w..<slice_bound ce w}"
proof -
  have "\<And>r c. (r, c) \<in> patch_pixels (h, w) (rs, re, cs, ce) \<longleftrightarrow>
     (r, c) \<in> {slice_bound rs h..<slice_bound re h} \<times> {slice_bound cs w..<slice_bound ce w}"
  proof -
    fix r c
    have "(r, c) \<in> patch_pixels (h, w) (rs, re, cs, ce) \<longleftrightarrow>
          r < h \<and> c < w \<and> in_slice rs re h r \<and> in_slice cs ce w c"
      unfolding patch_pixels_eq by simp
    also have "\<dots> \<longleftrightarrow> in_slice rs re h r \<and> in_slice cs ce w c"
      using slice_bound_le [of re h] slice_bound_le [of ce w]
      unfolding in_slice_def by linarith
    also have "\<dots> \<longleftrightarrow> (r, c) \<in> {slice_bound rs h..<slice_bound re h} \<times> {slice_bound cs w..<slice_bound ce w}"
      unfolding in_slice_def by simp
    finally show "(r, c) \<in> patch_pixels (h, w) (rs, re, cs, ce) \<longleftrightarrow>
      (r, c) \<in> {slice_bound rs h..<slice_bound re h} \<times> {slice_bound cs w..<slice_bound ce w}" .
  qed
  then show ?thesis by (intro set_eqI) (simp only: split_paired_all)
qed

lemma shift_back:
  assumes "c < w"
  shows "nat ((int (nat ((int c + k) mod int w)) - k) mod int w) = c"
proof -
  have w0: "0 < int w" using assms by simp
  have "(int (nat ((int c + k) mod int w)) - k) mod int w = ((int c + k) mod int w - k) mod int w"
    using w0 by simp
  also have "\<dots> = (int c + k - k) mod int w"
    by (simp add: mod_diff_left_eq)
  also have "\<dots> = int c" using assms by simp
  finally show ?thesis by simp
qed

lemma shift_forth:
  assumes "c < w"
  shows "nat ((int (nat ((int c - k) mod int w)) + k) mod int w) = c"
  using shift_back [OF assms, of "- k"] by simp

lemma shift_forth':
  assumes "c < w"
  shows "nat (((int c - k) mod int w + k) mod int w) = c"
  using assms by (simp add: mod_add_left_eq)

lemma mem_shift_cols:
  assumes "S \<subseteq> all_pixels (h, w)"
  shows "(r, c) \<in> shift_cols w k S \<longleftrightarrow> c < w \<and> (r, nat ((int c - k) mod int w)) \<in> S"
proof
  assume "(r, c) \<in> shift_cols w k S"
  then obtain c' where in_S: "(r, c') \<in> S" and c: "c = nat ((int c' + k) mod int w)"
    by (auto simp: shift_cols_def)
  from in_S assms have c'w: "c' < w" by (auto simp: all_pixels_def)
  then have "c < w" unfolding c by (simp add: nat_less_iff)
  moreover have "nat ((int c - k) mod int w) = c'" unfolding c by (rule shift_back [OF c'w])
  ultimately show "c < w \<and> (r, nat ((int c - k) mod int w)) \<in> S" using in_S by simp
next
  assume a: "c < w \<and> (r, nat ((int c - k) mod int w)) \<in> S"
  define c' where "c' = nat ((int c - k) mod int w)"
  have "(r, c') \<in> S" using a by (simp add: c'_def)
  then have "(\<lambda>(r, c). (r, nat ((int c + k) mod int w))) (r, c') \<in> shift_cols w k S"
    unfolding shift_cols_def by (rule imageI)
  moreover have "nat ((int c' + k) mod int w) = c"
    unfolding c'_def using a by (intro shift_forth) simp
  ultimately show "(r, c) \<in> shift_cols w k S" by simp
qed

lemma shift_cols_subset:
  assumes "S \<subseteq> all_pixels (h, w)"
  shows "shift_cols w k S \<subseteq> all_pixels (h, w)"
proof
  fix p assume "p \<in> shift_cols w k S"
  then obtain r c where p: "p = (r, c)" and m: "(r, c) \<in> shift_cols w k S" by (cases p) auto
  from m have "c < w" and "(r, nat ((int c - k) mod int w)) \<in> S"
    using mem_shift_cols [OF assms] by auto
  then show "p \<in> all_pixels (h, w)" using assms p by (auto simp: all_pixels_def)
qed

lemma shift_cols_inverse:
  assumes "S \<subseteq> all_pixels (h, w)"
  shows "shift_cols w k (shift_cols w (- k) S) = S"
proof (rule set_eqI)
  fix p :: "nat \<times> nat"
  obtain r c where p: "p = (r, c)" by (cases p)
  define c' where "c' = nat ((int c - k) mod int w)"
  have 1: "(r, c) \<in> shift_cols w k (shift_cols w (- k) S) \<longleftrightarrow>
          c < w \<and> (r, c') \<in> shift_cols w (- k) S"
    unfolding c'_def by (rule mem_shift_cols [OF shift_cols_subset [OF assms]])
  have 2: "(r, c') \<in> shift_cols w (- k) S \<longleftrightarrow> c' < w \<and> (r, nat ((int c' - (- k)) mod int w)) \<in> S"
    by (rule mem_shift_cols [OF assms])
  have 3: "c < w \<Longrightarrow> c' < w" unfolding c'_def by (rule shift_index_lt)
  have 4: "c < w \<Longrightarrow> nat ((int c' - (- k)) mod int w) = c"
    unfolding c'_def diff_minus_eq_add by (rule shift_forth)
  have 5: "(r, c) \<in> S \<Longrightarrow> c < w" using assms by (auto simp: all_pixels_def)
  show "p \<in> shift_cols w k (shift_cols w (- k) S) \<longleftrightarrow> p \<in> S"
    unfolding p using 1 2 3 4 5 by metis
qed

lemma card_shift_cols:
  assumes "S \<subseteq> all_pixels (h, w)"
  shows "card (shift_cols w k S) = card S"
proof -
  have "inj_on (\<lambda>(r, c). (r, nat ((int c + k) mod int w))) S"
  proof (rule inj_onI)
    fix p q assume p: "p \<in> S" and q: "q \<in> S"
      and e: "(case p of (r, c) \<Rightarrow> (r, nat ((int c + k) mod int w))) =
              (case q of (r, c) \<Rightarrow> (r, nat ((int c + k) mod int w)))"
    obtain r1 c1 where p': "p = (r1, c1)" by (cases p)
    obtain r2 c2 where q': "q = (r2, c2)" by (cases q)
    from p q assms have lt: "c1 < w" "c2 < w" by (auto simp: p' q' all_pixels_def)
    from e have r: "r1 = r2" and c: "nat ((int c1 + k) mod int w) = nat ((int c2 + k) mod int w)"
      by (simp_all add: p' q')
    have "c1 = c2" using shift_back [OF lt(1), of k] shift_back [OF lt(2), of k] c by simp
    with r show "p = q" by (simp add: p' q')
  qed
  then show ?thesis unfolding shift_cols_def by (rule card_image)
qed

lemma finite_pixels: "S \<subseteq> all_pixels (h, w) \<Longrightarrow> finite S"
  by (rule finite_subset [where B = "all_pixels (h, w)"]) (simp_all add: all_pixels_def)


lemma patch_pixels_subset: "patch_pixels (h, w) patch \<subseteq> all_pixels (h, w)"
  by (cases patch) (auto simp: patch_pixels_eq all_pixels_def)

lemma half_block_pixels:
  assumes B_def: "B = patch_pixels (h, w) patch"
  shows "pixels_set (tabulate2 h w (half_block_cell h w patch off)) =
         (B \<inter> shift_cols w off B) \<union> (shift_cols w (- off) B - B)"
proof (rule set_eqI)
  fix p :: "nat \<times> nat"
  obtain r c where p: "p = (r, c)" by (cases p)
  obtain rs re cs ce where patch: "patch = (rs, re, cs, ce)" by (cases patch)
  have sub: "B \<subseteq> all_pixels (h, w)" unfolding B_def by (rule patch_pixels_subset)
  have inB: "\<And>c. (r, c) \<in> B \<longleftrightarrow> r < h \<and> c < w \<and> in_slice rs re h r \<and> in_slice cs ce w c"
    unfolding B_def patch patch_pixels_eq by simp
  have plus: "(r, c) \<in> shift_cols w off B \<longleftrightarrow> c < w \<and> (r, nat ((int c - off) mod int w)) \<in> B"
    by (rule mem_shift_cols [OF sub])
  have minus: "(r, c) \<in> shift_cols w (- off) B \<longleftrightarrow> c < w \<and> (r, nat ((int c + off) mod int w)) \<in> B"
    using mem_shift_cols [OF sub, of r c "- off"] by simp
  have lt1: "c < w \<Longrightarrow> nat ((int c - off) mod int w) < w" by (rule shift_index_lt)
  have lt2: "c < w \<Longrightarrow> nat ((int c + off) mod int w) < w"
    using shift_index_lt [of c w "- off"] by simp
  have "p \<in> pixels_set (tabulate2 h w (half_block_cell h w patch off)) \<longleftrightarrow>
        r < h \<and> c < w \<and> half_block_cell h w patch off r c \<noteq> 0"
    unfolding p pixels_set_tabulate2 by simp
  also have "\<dots> \<longleftrightarrow> r < h \<and> c < w \<and>
      (if in_slice rs re h r \<and> in_slice cs ce w c
       then in_slice cs ce w (nat ((int c - off) mod int w))
       else in_slice rs re h r \<and> in_slice cs ce w (nat ((int c + off) mod int w)))"
    unfolding half_block_cell_def patch by simp
  also have "\<dots> \<longleftrightarrow> p \<in> (B \<inter> shift_cols w off B) \<union> (shift_cols w (- off) B - B)"
    unfolding p Un_iff Int_iff Diff_iff plus minus inB using lt1 lt2 by auto
  finally show "p \<in> pixels_set (tabulate2 h w (half_block_cell h w patch off)) \<longleftrightarrow>
      p \<in> (B \<inter> shift_cols w off B) \<union> (shift_cols w (- off) B - B)" .
qed

lemma half_block_nonempty:
  assumes sub: "B \<subseteq> all_pixels (h, w)" and ne: "B \<noteq> {}"
  shows "(B \<inter> shift_cols w off B) \<union> (shift_cols w (- off) B - B) \<noteq> {}"
proof
  assume e: "(B \<inter> shift_cols w off B) \<union> (shift_cols w (- off) B - B) = {}"
  then have incl: "shift_cols w (- off) B \<subseteq> B" and disj: "B \<inter> shift_cols w off B = {}" by auto
  have "card (shift_cols w (- off) B) = card B" by (rule card_shift_cols [OF sub])
  with incl have eq: "shift_cols w (- off) B = B"
    using finite_pixels [OF sub] by (simp add: card_subset_eq)
  have "shift_cols w off (shift_cols w (- off) B) = B" by (rule shift_cols_inverse [OF sub])
  then have "shift_cols w off B = B" unfolding eq .
  with disj ne show False by simp
qed

lemma half_block_not_full:
  assumes sub: "B \<subseteq> all_pixels (h, w)" and nf: "B \<noteq> all_pixels (h, w)"
  shows "(B \<inter> shift_cols w off B) \<union> (shift_cols w (- off) B - B) \<noteq> all_pixels (h, w)"
proof
  assume e: "(B \<inter> shift_cols w off B) \<union> (shift_cols w (- off) B - B) = all_pixels (h, w)"
  have "B \<subseteq> shift_cols w off B"
  proof
    fix p assume pB: "p \<in> B"
    then have "p \<in> all_pixels (h, w)" using sub by auto
    then have "p \<in> (B \<inter> shift_cols w off B) \<union> (shift_cols w (- off) B - B)" unfolding e .
    with pB show "p \<in> shift_cols w off B" by auto
  qed
  moreover have "card (shift_cols w off B) = card B" by (rule card_shift_cols [OF sub])
  moreover have "finite (shift_cols w off B)"
    by (rule finite_pixels [OF shift_cols_subset [OF sub]])
  ultimately have "B = shift_cols w off B" by (intro card_subset_eq) simp_all
  then have eq: "shift_cols w off B = B" by simp
  have "shift_cols w (- off) (shift_cols w (- (- off)) B) = B"
    by (rule shift_cols_inverse [OF sub])
  then have "shift_cols w (- off) B = B" using eq by simp
  then have "(B \<inter> shift_cols w off B) \<union> (shift_cols w (- off) B - B) = B" using eq by auto
  with e nf show False by simp
qed


subsection \<open>The half-block mask\<close>

lemma isqrt_16: "isqrt 16 = 4"
  by code_simp

lemma offset_example: "half_block_offset 4 16 0 = Inr (- 2)"
  by (simp add: half_block_offset_def isqrt_16)

lemma mask_example:
  "random_half_block_mask (\<lambda>label block_width stride. (0, 4, 2, 6)) 4 16 0 (4, 8) (Some 0) =
     Inr [[[0, 0, 1, 1, 0, 0, 1, 1],
           [0, 0, 1, 1, 0, 0, 1, 1],
           [0, 0, 1, 1, 0, 0, 1, 1],
           [0, 0, 1, 1, 0, 0, 1, 1]]]"
  by code_simp


text \<open>
  The two summands of the mask: the first has its set pixels inside the patch, the second
  outside it.
\<close>

lemma half_block_terms_disjoint:
  fixes im_shape :: "nat \<times> nat"
  assumes "block = add_patch (zeros im_shape) rs re cs ce 1"
  shows "pixels_set (g_mul block (roll block off)) \<subseteq> pixels_set block"
    and "pixels_set (g_mul (g_rsub 1 block) (roll block (- off))) \<inter> pixels_set block = {}"
proof -
  obtain h w where im: "im_shape = (h, w)" by (cases im_shape)
  show "pixels_set (g_mul block (roll block off)) \<subseteq> pixels_set block"
    unfolding assms im block_eq roll_tabulate2 g_mul_tabulate2 pixels_set_tabulate2 by auto
  show "pixels_set (g_mul (g_rsub 1 block) (roll block (- off))) \<inter> pixels_set block = {}"
    unfolding assms im block_eq roll_tabulate2 g_rsub_tabulate2 g_mul_tabulate2 pixels_set_tabulate2
    by auto
qed

text \<open>
  C10. Every mask that \<open>random_half_block_mask\<close> returns is a single grid under one
  leading axis, and each of its cells is 0 or 1: the two summands never meet in a cell.
\<close>

theorem random_half_block_mask_binary:
  assumes "random_half_block_mask lp block_width num_labels rnd im_shape label_opt = Inr m"
  shows "\<exists>mask. m = [mask] \<and> binary_grid mask"
proof -
  obtain h w where im: "im_shape = (h, w)" by (cases im_shape)
  from assms obtain label where dl: "default_label rnd num_labels label_opt = Inr label"
    by (cases "default_label rnd num_labels label_opt") (simp_all add: random_half_block_mask_def)
  obtain rs re cs ce where patch: "lp label block_width (block_width div 2) = (rs, re, cs, ce)"
    by (cases "lp label block_width (block_width div 2)")
  from assms dl patch obtain off where off: "half_block_offset block_width num_labels label = Inr off"
    by (cases "half_block_offset block_width num_labels label")
       (simp_all add: random_half_block_mask_def)
  have m: "m = [tabulate2 h w (half_block_cell h w (rs, re, cs, ce) off)]"
    using assms unfolding im half_block_mask_eq [where lp = lp, OF dl off patch] by simp
  have "binary_grid (tabulate2 h w (half_block_cell h w (rs, re, cs, ce) off))"
    unfolding binary_grid_tabulate2 by (simp add: half_block_cell_def)
  with m show ?thesis by simp
qed


theorem random_half_block_mask_binary_witness:
  "random_half_block_mask (\<lambda>label block_width stride. (0, 4, 2, 6)) 4 16 0 (4, 8) (Some 0) =
     Inr [[[0, 0, 1, 1, 0, 0, 1, 1],
           [0, 0, 1, 1, 0, 0, 1, 1],
           [0, 0, 1, 1, 0, 0, 1, 1],
           [0, 0, 1, 1, 0, 0, 1, 1]]] \<and>
   binary_grid [[0, 0, 1, 1, 0, 0, 1, 1],
                [0, 0, 1, 1, 0, 0, 1, 1],
                [0, 0, 1, 1, 0, 0, 1, 1],
                [0, 0, 1, 1, 0, 0, 1, 1]]"
  using random_half_block_mask_binary [OF mask_example] mask_example by simp


text \<open>
  C6, as the code has it. Let \<open>B\<close> be the ground-truth patch of the label, a rectangle,
  and \<open>off\<close> the label-dependent offset. The mask that \<open>random_half_block_mask\<close> returns
  has as its set pixels the part of the patch that the patch rolled by \<open>off\<close> covers,
  together with the part of the patch rolled by \<open>- off\<close> that lies outside the patch.
  Hence its set pixels lie within the two rolled patches, each of which has as many pixels as
  the patch; the mask is not all-zero when the patch holds a pixel, and not all-one when
  the patch is not the whole image.
\<close>

theorem random_half_block_mask_pixels:
  assumes label: "default_label rnd num_labels label_opt = Inr label"
    and off: "half_block_offset block_width num_labels label = Inr off"
    and patch: "lp label block_width (block_width div 2) = patch"
    and B: "B = patch_pixels (h, w) patch"
  shows "\<exists>mask. random_half_block_mask lp block_width num_labels rnd (h, w) label_opt = Inr [mask] \<and>
      pixels_set mask = (B \<inter> shift_cols w off B) \<union> (shift_cols w (- off) B - B) \<and>
      pixels_set mask \<subseteq> shift_cols w off B \<union> shift_cols w (- off) B \<and>
      (\<exists>r0 r1 c0 c1. B = {r0..<r1} \<times> {c0..<c1}) \<and>
      card (shift_cols w off B) = card B \<and> card (shift_cols w (- off) B) = card B \<and>
      (B \<noteq> {} \<longrightarrow> pixels_set mask \<noteq> {}) \<and>
      (B \<noteq> all_pixels (h, w) \<longrightarrow> pixels_set mask \<noteq> all_pixels (h, w))"
proof -
  obtain rs re cs ce where coords: "patch = (rs, re, cs, ce)" by (cases patch)
  let ?mask = "tabulate2 h w (half_block_cell h w patch off)"
  have ret: "random_half_block_mask lp block_width num_labels rnd (h, w) label_opt = Inr [?mask]"
    unfolding coords
    by (rule half_block_mask_eq [where lp = lp, OF label off]) (simp add: patch coords)
  have sub: "B \<subseteq> all_pixels (h, w)" unfolding B by (rule patch_pixels_subset)
  have px: "pixels_set ?mask = (B \<inter> shift_cols w off B) \<union> (shift_cols w (- off) B - B)"
    by (rule half_block_pixels [OF B])
  have incl: "pixels_set ?mask \<subseteq> shift_cols w off B \<union> shift_cols w (- off) B"
    unfolding px by blast
  have rect: "\<exists>r0 r1 c0 c1. B = {r0..<r1} \<times> {c0..<c1}"
    unfolding B coords patch_pixels_rectangle by blast
  have c1: "card (shift_cols w off B) = card B" by (rule card_shift_cols [OF sub])
  have c2: "card (shift_cols w (- off) B) = card B" by (rule card_shift_cols [OF sub])
  have ne: "B \<noteq> {} \<longrightarrow> pixels_set ?mask \<noteq> {}"
    unfolding px using half_block_nonempty [OF sub] by blast
  have nf: "B \<noteq> all_pixels (h, w) \<longrightarrow> pixels_set ?mask \<noteq> all_pixels (h, w)"
    unfolding px using half_block_not_full [OF sub] by blast
  from ret px incl rect c1 c2 ne nf show ?thesis by blast
qed

lemma in_patch_example:
  "(r, c) \<in> patch_pixels (4, 8) (0, 4, 2, 6) \<longleftrightarrow> r < 4 \<and> 2 \<le> c \<and> c < 6"
  unfolding patch_pixels_eq by (auto simp: in_slice_def slice_bound_def)

theorem random_half_block_mask_pixels_witness:
  "random_half_block_mask (\<lambda>label block_width stride. (0, 4, 2, 6)) 4 16 0 (4, 8) (Some 0) =
     Inr [[[0, 0, 1, 1, 0, 0, 1, 1],
           [0, 0, 1, 1, 0, 0, 1, 1],
           [0, 0, 1, 1, 0, 0, 1, 1],
           [0, 0, 1, 1, 0, 0, 1, 1]]] \<and>
   pixels_set [[0, 0, 1, 1, 0, 0, 1, 1],
               [0, 0, 1, 1, 0, 0, 1, 1],
               [0, 0, 1, 1, 0, 0, 1, 1],
               [0, 0, 1, 1, 0, 0, 1, 1]] =
     (patch_pixels (4, 8) (0, 4, 2, 6) \<inter> shift_cols 8 (- 2) (patch_pixels (4, 8) (0, 4, 2, 6))) \<union>
     (shift_cols 8 2 (patch_pixels (4, 8) (0, 4, 2, 6)) - patch_pixels (4, 8) (0, 4, 2, 6)) \<and>
   pixels_set [[0, 0, 1, 1, 0, 0, 1, 1],
               [0, 0, 1, 1, 0, 0, 1, 1],
               [0, 0, 1, 1, 0, 0, 1, 1],
               [0, 0, 1, 1, 0, 0, 1, 1]] \<noteq> {} \<and>
   pixels_set [[0, 0, 1, 1, 0, 0, 1, 1],
               [0, 0, 1, 1, 0, 0, 1, 1],
               [0, 0, 1, 1, 0, 0, 1, 1],
               [0, 0, 1, 1, 0, 0, 1, 1]] \<noteq> all_pixels (4, 8)"
proof -
  let ?lp = "\<lambda>label block_width stride :: nat. (0 :: int, 4 :: int, 2 :: int, 6 :: int)"
  let ?B = "patch_pixels (4, 8) (0, 4, 2, 6)"
  have label: "default_label 0 16 (Some 0) = Inr 0" by (simp add: default_label_def)
  have "(0, 2) \<in> ?B" by (simp add: in_patch_example)
  then have ne: "?B \<noteq> {}" by blast
  have "(0, 0) \<notin> ?B" "(0, 0) \<in> all_pixels (4, 8)"
    by (simp_all add: in_patch_example all_pixels_def)
  then have nf: "?B \<noteq> all_pixels (4, 8)" by blast
  from random_half_block_mask_pixels [where lp = ?lp, OF label offset_example refl refl, of 4 8]
  obtain mask where
    ret: "random_half_block_mask ?lp 4 16 0 (4, 8) (Some 0) = Inr [mask]" and
    px: "pixels_set mask = (?B \<inter> shift_cols 8 (- 2) ?B) \<union> (shift_cols 8 (- (- 2)) ?B - ?B)" and
    ne': "?B \<noteq> {} \<longrightarrow> pixels_set mask \<noteq> {}" and
    nf': "?B \<noteq> all_pixels (4, 8) \<longrightarrow> pixels_set mask \<noteq> all_pixels (4, 8)"
    by blast
  from ret mask_example have "mask = [[0, 0, 1, 1, 0, 0, 1, 1],
               [0, 0, 1, 1, 0, 0, 1, 1],
               [0, 0, 1, 1, 0, 0, 1, 1],
               [0, 0, 1, 1, 0, 0, 1, 1]]" by simp
  with px ne ne' nf nf' mask_example show ?thesis by simp
qed

text \<open>
  The mask is not the union of the two rolled patches: for a patch of columns 2 to 5 in an
  image eight columns wide and the offset -2, the union covers every column of the patch
  rows, while the mask holds columns 2, 3, 6 and 7 only.
\<close>

theorem half_block_mask_not_union_counterexample:
  "random_half_block_mask (\<lambda>label block_width stride. (0, 4, 2, 6)) 4 16 0 (4, 8) (Some 0) =
     Inr [[[0, 0, 1, 1, 0, 0, 1, 1],
           [0, 0, 1, 1, 0, 0, 1, 1],
           [0, 0, 1, 1, 0, 0, 1, 1],
           [0, 0, 1, 1, 0, 0, 1, 1]]] \<and>
   half_block_offset 4 16 0 = Inr (- 2) \<and>
   pixels_set [[0, 0, 1, 1, 0, 0, 1, 1],
               [0, 0, 1, 1, 0, 0, 1, 1],
               [0, 0, 1, 1, 0, 0, 1, 1],
               [0, 0, 1, 1, 0, 0, 1, 1]] \<noteq>
     shift_cols 8 (- 2) (patch_pixels (4, 8) (0, 4, 2, 6)) \<union>
     shift_cols 8 2 (patch_pixels (4, 8) (0, 4, 2, 6))"
proof -
  let ?B = "patch_pixels (4, 8) (0, 4, 2, 6)"
  have "(0, 0) \<in> shift_cols 8 (- 2) ?B"
    unfolding mem_shift_cols [OF patch_pixels_subset] by (simp add: in_patch_example)
  moreover have "(0, 0) \<notin> pixels_set [[0, 0, 1, 1, 0, 0, 1, 1],
               [0, 0, 1, 1, 0, 0, 1, 1],
               [0, 0, 1, 1, 0, 0, 1, 1],
               [0, 0, 1, 1, 0, 0, 1, 1]]"
    by code_simp
  ultimately show ?thesis using mask_example offset_example by blast
qed

subsection \<open>Error plumbing and the shape of intermediate results\<close>

lemma ebind_Inr_iff: "ebind m f = Inr r \<longleftrightarrow> (\<exists>v. m = Inr v \<and> f v = Inr r)"
  by (cases m) (simp_all add: ebind_def)

lemma ebind_Inr [simp]: "ebind (Inr v) f = f v"
  by (simp add: ebind_def)

lemma ebind_Inl [simp]: "ebind (Inl e) f = Inl e"
  by (simp add: ebind_def)

lemma collect_Inr: "collect rs = Inr vs \<Longrightarrow> rs = map Inr vs"
proof (induction rs arbitrary: vs)
  case Nil
  then show ?case by simp
next
  case (Cons r rs)
  then show ?case
    by (cases r; cases "collect rs") auto
qed


lemma view_rows_length: "view_rows n t = Inr rows \<Longrightarrow> length rows = n"
  by (auto simp: view_rows_def Let_def split: if_splits)

lemma infer_label_probs_length:
  assumes "infer_label_probs ext rnd self x msk = Inr label_probs"
  shows "length label_probs = length x"
proof -
  from assms obtain xm logits rows where
    "view_rows (length x) (crop logits) = Inr rows"
    and lp: "(let label_probs = map softmax rows
        in if list_ex (\<lambda>row. length row \<le> 2) label_probs then Inl IndexError
           else Inr (map (\<lambda>ps. renormalise (take_top_two ps)) label_probs)) = Inr label_probs"
    unfolding infer_label_probs_def ebind_Inr_iff by blast
  then have "length rows = length x" by (simp add: view_rows_length)
  moreover from lp have "length label_probs = length rows"
    by (auto simp: Let_def split: if_splits)
  ultimately show ?thesis by simp
qed

lemma multinomial_single:
  assumes "multinomial rnd [row] = Inr samples"
  shows "\<exists>l. samples = [[l]]"
proof -
  from assms have "collect [ebind (multinomial_draw rnd 0 row) (\<lambda>l. Inr [l])] = Inr samples"
    by (simp add: multinomial_def)
  then show ?thesis
    by (cases "multinomial_draw rnd 0 row") auto
qed

lemma squeeze_single: "squeeze (of_matrix [[l]]) = Scalar l"
  by (simp add: of_matrix_def)

subsection \<open>The example inputs evaluated\<close>

lemma masked_input_example1: "masked_input example_ext example_rnd [example_image] [zero_image] = Inr [example_image]"
  by (simp add: masked_input_def t_mul_def t_add_def cellwise_def row_lengths_def t_rsub_def
      t_smul_def randn_def tensor_shape_def example_ext_def example_rnd_def example_image_def zero_image_def)

lemma filt_example1: "filt example_ext example_inpainter [example_image] = Inr [[[[1 / 4, 1 / 4, 0, 1 / 8, 1 / 8], [1 / 4, 1 / 4, 0, 1 / 8, 1 / 8],
        [0, 0, 0, 0, 0]]]]"
  by (simp add: filt_def example_inpainter_def avg_pool2d_def tensor_shape_def example_image_def avg_pool_grid_def pool_windows_def)


lemma length_softmax [simp]: "length (softmax xs) = length xs"
  by (simp add: softmax_def)

lemma view_example1: "view_rows (length [example_image]) (crop [[[[1 / 4, 1 / 4, 0, 1 / 8, 1 / 8], [1 / 4, 1 / 4, 0, 1 / 8, 1 / 8],
        [0, 0, 0, 0, 0]]]]) = Inr [[1/4, 0, 1/8]]"
  by (simp add: view_rows_def crop_def py_slice_def slice_bound_def)

lemma infer_example1:
  "infer_label_probs example_ext example_rnd example_inpainter [example_image] [zero_image] =
     Inr [renormalise (take_top_two (softmax [1/4, 0, 1/8]))]"
  unfolding infer_label_probs_def masked_input_example1 ebind_Inr filt_example1 view_example1
  by simp

lemma max_pixels_example1: "max_pixels [example_image] = Inr [[1]]"
  by (simp add: max_pixels_def max_last_def example_image_def)

lemma betas_example1: "betas [example_image] = Inr (Scalar 1)"
  by (simp add: betas_def max_pixels_example1 of_matrix_def clamp_def)

lemma multinomial_example1: "multinomial example_rnd [row] = Inr [[0]]"
  by (simp add: multinomial_def example_rnd_def)

subsection \<open>A batch of one image\<close>

text \<open>
  C9. For a batch that holds exactly one image, \<open>generate_background\<close> never returns a
  batch. When label inference, sampling and the pixel maxima succeed, the sampled labels
  have shape 1 x 1, squeezing leaves an array without axes, and iterating over it in
  \<open>zip\<close> raises \<open>TypeError\<close>. \<open>impute_missing_imgs\<close> passes the error on.
\<close>

theorem generate_background_single_image:
  assumes "length x = 1"
  shows "(\<exists>e. generate_background ext rnd self x msk = Inl e) \<and>
         (\<forall>label_probs samples bs.
            infer_label_probs ext rnd self x msk = Inr label_probs \<longrightarrow>
            multinomial rnd label_probs = Inr samples \<longrightarrow>
            betas x = Inr bs \<longrightarrow>
            generate_background ext rnd self x msk = Inl TypeError \<and>
            impute_missing_imgs ext rnd self x msk = Inl TypeError) \<and>
         (\<exists>e. impute_missing_imgs ext rnd self x msk = Inl e)"
proof -
  have main: "generate_background ext rnd self x msk = Inl TypeError"
    if lp: "infer_label_probs ext rnd self x msk = Inr label_probs"
      and s: "multinomial rnd label_probs = Inr samples"
      and mx: "betas x = Inr bs" for label_probs samples bs
  proof -
    from infer_label_probs_length [OF lp] assms have "length label_probs = 1" by simp
    then obtain row where "label_probs = [row]" by (cases label_probs) auto
    with s obtain l where "samples = [[l]]" using multinomial_single by blast
    then have "py_iter (squeeze (of_matrix samples)) = Inl TypeError"
      by (simp add: squeeze_single py_iter_def)
    then show ?thesis
      by (simp add: generate_background_def lp s mx Let_def)
  qed
  have "\<exists>e. generate_background ext rnd self x msk = Inl e"
  proof (cases "infer_label_probs ext rnd self x msk")
    case (Inl e)
    then show ?thesis by (simp add: generate_background_def)
  next
    case lp: (Inr label_probs)
    show ?thesis
    proof (cases "multinomial rnd label_probs")
      case (Inl e)
      then show ?thesis by (simp add: generate_background_def lp)
    next
      case s: (Inr samples)
      show ?thesis
      proof (cases "betas x")
        case (Inl e)
        then show ?thesis by (simp add: generate_background_def lp s Let_def)
      next
        case (Inr bs)
        then show ?thesis using main [OF lp s] by blast
      qed
    qed
  qed
  then obtain e where e: "generate_background ext rnd self x msk = Inl e" by blast
  then have "impute_missing_imgs ext rnd self x msk = Inl e"
    by (simp add: impute_missing_imgs_def)
  moreover have "impute_missing_imgs ext rnd self x msk = Inl TypeError"
    if "generate_background ext rnd self x msk = Inl TypeError"
    using that by (simp add: impute_missing_imgs_def)
  ultimately show ?thesis using main e by blast
qed


theorem generate_background_single_image_witness:
  "length [example_image] = 1 \<and>
   infer_label_probs example_ext example_rnd example_inpainter [example_image] [zero_image] =
     Inr [renormalise (take_top_two (softmax [1/4, 0, 1/8]))] \<and>
   multinomial example_rnd [renormalise (take_top_two (softmax [1/4, 0, 1/8]))] = Inr [[0]] \<and>
   betas [example_image] = Inr (Scalar 1) \<and>
   generate_background example_ext example_rnd example_inpainter [example_image] [zero_image] = Inl TypeError \<and>
   impute_missing_imgs example_ext example_rnd example_inpainter [example_image] [zero_image] = Inl TypeError"
proof -
  have h: "length [example_image] = 1" by simp
  from generate_background_single_image [OF h, of example_ext example_rnd example_inpainter "[zero_image]"]
  have "generate_background example_ext example_rnd example_inpainter [example_image] [zero_image] = Inl TypeError \<and>
    impute_missing_imgs example_ext example_rnd example_inpainter [example_image] [zero_image] = Inl TypeError"
    using infer_example1 multinomial_example1 betas_example1 by blast
  then show ?thesis
    using infer_example1 multinomial_example1 betas_example1 by simp
qed

subsection \<open>The intensity estimate\<close>











subsection \<open>Cell-wise operations on tensors\<close>

lemma map_eq_nth:
  assumes "map g xs = map h ys" and "n < length xs"
  shows "n < length ys \<and> g (xs ! n) = h (ys ! n)"
proof -
  have len: "length xs = length ys" using assms(1) by (rule map_eq_imp_length_eq)
  have "map g xs ! n = map h ys ! n" using assms(1) by simp
  then show ?thesis using assms(2) len by simp
qed

lemma map_map2_same:
  assumes "map g xs = map h ys"
    and "\<And>x y. x \<in> set xs \<Longrightarrow> y \<in> set ys \<Longrightarrow> g x = h y \<Longrightarrow> k (F x y) = g x"
  shows "map k (map2 F xs ys) = map g xs"
proof -
  have "length xs = length ys" using assms(1) by (rule map_eq_imp_length_eq)
  then show ?thesis using assms
  proof (induction xs ys rule: list_induct2)
    case Nil
    then show ?case by simp
  next
    case (Cons x xs y ys)
    from Cons.prems(1) have hd: "g x = h y" and tl: "map g xs = map h ys" by simp_all
    have "k (F x y) = g x" using Cons.prems(2) hd by simp
    moreover have "map k (map2 F xs ys) = map g xs"
      using Cons.IH [OF tl] Cons.prems(2) by simp
    ultimately show ?case by simp
  qed
qed

lemma row_lengths_map2:
  assumes "row_lengths a = row_lengths b"
  shows "row_lengths (map2 (map2 (map2 (map2 f))) a b) = row_lengths a"
  unfolding row_lengths_def
proof (rule map_map2_same)
  show "map (map (map length)) a = map (map (map length)) b"
    using assms by (simp add: row_lengths_def)
next
  fix img img' :: image
  assume e3: "map (map length) img = map (map length) img'"
  show "map (map length) (map2 (map2 (map2 f)) img img') = map (map length) img"
  proof (rule map_map2_same [OF e3])
    fix g g' :: grid
    assume e2: "map length g = map length g'"
    show "map length (map2 (map2 f) g g') = map length g"
    proof (rule map_map2_same [OF e2])
      fix r r' :: "real list"
      assume "length r = length r'"
      then show "length (map2 f r r') = length r" by simp
    qed
  qed
qed

lemma valid_index_cong:
  assumes "row_lengths a = row_lengths b"
  shows "valid_index a idx = valid_index b idx"
proof -
  obtain n c i j where idx: "idx = (n, c, i, j)" by (cases idx)
  have dir: "valid_index a' idx \<Longrightarrow> valid_index b' idx"
    if e: "row_lengths a' = row_lengths b'" for a' b' :: batch
  proof -
    assume "valid_index a' idx"
    then have n: "n < length a'" and c: "c < length (a' ! n)" and i: "i < length (a' ! n ! c)"
      and j: "j < length (a' ! n ! c ! i)" by (simp_all add: valid_index_def idx)
    from e have e4: "map (map (map length)) a' = map (map (map length)) b'"
      by (simp add: row_lengths_def)
    from map_eq_nth [OF e4 n] have n': "n < length b'"
      and e3: "map (map length) (a' ! n) = map (map length) (b' ! n)" by simp_all
    from map_eq_nth [OF e3 c] have c': "c < length (b' ! n)"
      and e2: "map length (a' ! n ! c) = map length (b' ! n ! c)" by simp_all
    from map_eq_nth [OF e2 i] have i': "i < length (b' ! n ! c)"
      and e1: "length (a' ! n ! c ! i) = length (b' ! n ! c ! i)" by simp_all
    show "valid_index b' idx" using n' c' i' j e1 by (simp add: valid_index_def idx)
  qed
  from dir [OF assms] dir [OF assms [symmetric]] show ?thesis by blast
qed

lemma cell_map2:
  assumes e: "row_lengths a = row_lengths b" and v: "valid_index a idx"
  shows "cell (map2 (map2 (map2 (map2 f))) a b) idx = f (cell a idx) (cell b idx)"
proof -
  obtain n c i j where idx: "idx = (n, c, i, j)" by (cases idx)
  from v have n: "n < length a" and c: "c < length (a ! n)" and i: "i < length (a ! n ! c)"
    and j: "j < length (a ! n ! c ! i)" by (simp_all add: valid_index_def idx)
  from v have "valid_index b idx" using valid_index_cong [OF e] by simp
  then have n': "n < length b" and c': "c < length (b ! n)" and i': "i < length (b ! n ! c)"
    and j': "j < length (b ! n ! c ! i)" by (simp_all add: valid_index_def idx)
  have "map2 (map2 (map2 (map2 f))) a b ! n = map2 (map2 (map2 f)) (a ! n) (b ! n)"
    using n n' by simp
  moreover have "map2 (map2 (map2 f)) (a ! n) (b ! n) ! c = map2 (map2 f) (a ! n ! c) (b ! n ! c)"
    using c c' by simp
  moreover have "map2 (map2 f) (a ! n ! c) (b ! n ! c) ! i = map2 f (a ! n ! c ! i) (b ! n ! c ! i)"
    using i i' by simp
  moreover have "map2 f (a ! n ! c ! i) (b ! n ! c ! i) ! j = f (a ! n ! c ! i ! j) (b ! n ! c ! i ! j)"
    using j j' by simp
  ultimately show ?thesis by (simp add: cell_def idx)
qed

lemma cellwise_Inr:
  assumes "cellwise f a b = Inr r"
  shows "row_lengths b = row_lengths a" and "row_lengths r = row_lengths a"
    and "valid_index a idx \<Longrightarrow> cell r idx = f (cell a idx) (cell b idx)"
proof -
  from assms have e: "row_lengths a = row_lengths b" and r: "r = map2 (map2 (map2 (map2 f))) a b"
    by (auto simp: cellwise_def split: if_splits)
  show "row_lengths b = row_lengths a" using e by simp
  show "row_lengths r = row_lengths a" unfolding r by (rule row_lengths_map2 [OF e])
  show "valid_index a idx \<Longrightarrow> cell r idx = f (cell a idx) (cell b idx)"
    unfolding r by (rule cell_map2 [OF e])
qed

lemma row_lengths_t_rsub: "row_lengths (t_rsub a t) = row_lengths t"
  by (simp add: row_lengths_def t_rsub_def comp_def)

lemma cell_t_rsub:
  assumes "valid_index t idx"
  shows "cell (t_rsub a t) idx = a - cell t idx"
proof -
  obtain n c i j where idx: "idx = (n, c, i, j)" by (cases idx)
  from assms show ?thesis by (simp add: valid_index_def idx cell_def t_rsub_def)
qed

lemma composite_cell:
  assumes "composite x msk backgnd = Inr out"
  shows "row_lengths msk = row_lengths x" and "row_lengths backgnd = row_lengths x"
    and "row_lengths out = row_lengths x"
    and "valid_index x idx \<Longrightarrow>
         cell out idx = cell x idx * cell msk idx + cell backgnd idx * (1 - cell msk idx)"
proof -
  from assms obtain kept filled where
    k: "t_mul x msk = Inr kept" and f: "t_mul backgnd (t_rsub 1 msk) = Inr filled"
    and o: "t_add kept filled = Inr out"
    unfolding composite_def ebind_Inr_iff by blast
  note k' = cellwise_Inr [OF k [unfolded t_mul_def]]
  note f' = cellwise_Inr [OF f [unfolded t_mul_def]]
  note o' = cellwise_Inr [OF o [unfolded t_add_def]]
  show m: "row_lengths msk = row_lengths x" by (rule k'(1))
  have fk: "row_lengths filled = row_lengths kept" by (rule o'(1))
  show b: "row_lengths backgnd = row_lengths x"
    using f'(2) fk k'(2) by simp
  show "row_lengths out = row_lengths x" using o'(2) k'(2) by simp
  assume v: "valid_index x idx"
  have vk: "valid_index kept idx" using v valid_index_cong [OF k'(2)] by simp
  have vb: "valid_index backgnd idx" using v valid_index_cong [OF b] by simp
  have vm: "valid_index msk idx" using v valid_index_cong [OF m] by simp
  have "cell out idx = cell kept idx + cell filled idx" by (rule o'(3) [OF vk])
  also have "cell kept idx = cell x idx * cell msk idx" by (rule k'(3) [OF v])
  also have "cell filled idx = cell backgnd idx * cell (t_rsub 1 msk) idx" by (rule f'(3) [OF vb])
  also have "cell (t_rsub 1 msk) idx = 1 - cell msk idx" by (rule cell_t_rsub [OF vm])
  finally show "cell out idx = cell x idx * cell msk idx + cell backgnd idx * (1 - cell msk idx)" .
qed


lemma tensor_eqI:
  fixes a b :: batch
  assumes e: "row_lengths a = row_lengths b"
    and c: "\<And>idx. valid_index a idx \<Longrightarrow> cell a idx = cell b idx"
  shows "a = b"
proof (rule nth_equalityI)
  from e have e4: "map (map (map length)) a = map (map (map length)) b"
    by (simp add: row_lengths_def)
  show "length a = length b" using e4 by (rule map_eq_imp_length_eq)
  fix n assume n: "n < length a"
  from map_eq_nth [OF e4 n] have e3: "map (map length) (a ! n) = map (map length) (b ! n)" by simp
  show "a ! n = b ! n"
  proof (rule nth_equalityI)
    show "length (a ! n) = length (b ! n)" using e3 by (rule map_eq_imp_length_eq)
    fix k assume k: "k < length (a ! n)"
    from map_eq_nth [OF e3 k] have e2: "map length (a ! n ! k) = map length (b ! n ! k)" by simp
    show "a ! n ! k = b ! n ! k"
    proof (rule nth_equalityI)
      show "length (a ! n ! k) = length (b ! n ! k)" using e2 by (rule map_eq_imp_length_eq)
      fix i assume i: "i < length (a ! n ! k)"
      from map_eq_nth [OF e2 i] have e1: "length (a ! n ! k ! i) = length (b ! n ! k ! i)" by simp
      show "a ! n ! k ! i = b ! n ! k ! i"
      proof (rule nth_equalityI)
        show "length (a ! n ! k ! i) = length (b ! n ! k ! i)" by (rule e1)
        fix j assume j: "j < length (a ! n ! k ! i)"
        have "valid_index a (n, k, i, j)" using n k i j by (simp add: valid_index_def)
        from c [OF this] show "a ! n ! k ! i ! j = b ! n ! k ! i ! j" by (simp add: cell_def)
      qed
    qed
  qed
qed

subsection \<open>A batch of two images evaluated\<close>

lemma masked_input_example2:
  "masked_input example_ext example_rnd [example_image, example_image] [zero_image, zero_image] =
     Inr [example_image, example_image]"
  by (simp add: masked_input_def t_mul_def t_add_def cellwise_def row_lengths_def t_rsub_def
      t_smul_def randn_def tensor_shape_def example_ext_def example_rnd_def example_image_def zero_image_def)

lemma filt_example2:
  "filt example_ext example_inpainter [example_image, example_image] =
     Inr [[[[1 / 4, 1 / 4, 0, 1 / 8, 1 / 8], [1 / 4, 1 / 4, 0, 1 / 8, 1 / 8], [0, 0, 0, 0, 0]]],
          [[[1 / 4, 1 / 4, 0, 1 / 8, 1 / 8], [1 / 4, 1 / 4, 0, 1 / 8, 1 / 8], [0, 0, 0, 0, 0]]]]"
  by (simp add: filt_def example_inpainter_def avg_pool2d_def tensor_shape_def example_image_def
      avg_pool_grid_def pool_windows_def)

lemma view_example2:
  "view_rows (length [example_image, example_image])
     (crop [[[[1 / 4, 1 / 4, 0, 1 / 8, 1 / 8], [1 / 4, 1 / 4, 0, 1 / 8, 1 / 8], [0, 0, 0, 0, 0]]],
            [[[1 / 4, 1 / 4, 0, 1 / 8, 1 / 8], [1 / 4, 1 / 4, 0, 1 / 8, 1 / 8], [0, 0, 0, 0, 0]]]]) =
     Inr [[1 / 4, 0, 1 / 8], [1 / 4, 0, 1 / 8]]"
  by code_simp

lemma infer_example2:
  "infer_label_probs example_ext example_rnd example_inpainter
     [example_image, example_image] [zero_image, zero_image] =
     Inr [renormalise (take_top_two (softmax [1 / 4, 0, 1 / 8])),
          renormalise (take_top_two (softmax [1 / 4, 0, 1 / 8]))]"
  unfolding infer_label_probs_def masked_input_example2 ebind_Inr filt_example2 view_example2
  by simp

lemma betas_example2: "betas [example_image, example_image] = Inr (Array [Scalar 1, Scalar 1])"
  by (simp add: betas_def max_pixels_def max_last_def example_image_def of_matrix_def clamp_def)

lemma multinomial_example2: "multinomial example_rnd [r1, r2] = Inr [[0], [0]]"
  by (simp add: multinomial_def example_rnd_def)

lemma generate_background_example2:
  "generate_background example_ext example_rnd example_inpainter
     [example_image, example_image] [zero_image, zero_image] = Inr [gray_image, gray_image]"
  unfolding generate_background_def infer_example2 ebind_Inr multinomial_example2 betas_example2 Let_def
  by (simp add: of_matrix_def py_iter_def example_ext_def stack_def)

lemma composite_example2:
  "composite [example_image, example_image] [zero_image, zero_image] [gray_image, gray_image] =
     Inr [gray_image, gray_image]"
  by (simp add: composite_def t_mul_def t_add_def cellwise_def row_lengths_def t_rsub_def
      example_image_def zero_image_def gray_image_def)

lemma impute_example2:
  "impute_missing_imgs example_ext example_rnd example_inpainter
     [example_image, example_image] [zero_image, zero_image] = Inr [gray_image, gray_image]"
  unfolding impute_missing_imgs_def generate_background_example2 ebind_Inr
  by (rule composite_example2)


lemma masked_input_example3:
  "masked_input example_ext example_rnd [example_image, example_image] [right_half_mask, right_half_mask] =
     Inr [masked_example, masked_example]"
  by (simp add: masked_input_def t_mul_def t_add_def cellwise_def row_lengths_def t_rsub_def
      t_smul_def randn_def tensor_shape_def example_ext_def example_rnd_def example_image_def
      right_half_mask_def masked_example_def)

lemma filt_example3:
  "filt example_ext example_inpainter [masked_example, masked_example] =
     Inr [[[[1 / 4, 1 / 4, 0, 0, 0], [1 / 4, 1 / 4, 0, 0, 0], [0, 0, 0, 0, 0]]],
          [[[1 / 4, 1 / 4, 0, 0, 0], [1 / 4, 1 / 4, 0, 0, 0], [0, 0, 0, 0, 0]]]]"
  by (simp add: filt_def example_inpainter_def avg_pool2d_def tensor_shape_def masked_example_def
      avg_pool_grid_def pool_windows_def)

lemma view_example3:
  "view_rows (length [example_image, example_image])
     (crop [[[[1 / 4, 1 / 4, 0, 0, 0], [1 / 4, 1 / 4, 0, 0, 0], [0, 0, 0, 0, 0]]],
            [[[1 / 4, 1 / 4, 0, 0, 0], [1 / 4, 1 / 4, 0, 0, 0], [0, 0, 0, 0, 0]]]]) =
     Inr [[1 / 4, 0, 0], [1 / 4, 0, 0]]"
  by code_simp

lemma infer_example3:
  "infer_label_probs example_ext example_rnd example_inpainter
     [example_image, example_image] [right_half_mask, right_half_mask] =
     Inr [renormalise (take_top_two (softmax [1 / 4, 0, 0])),
          renormalise (take_top_two (softmax [1 / 4, 0, 0]))]"
  unfolding infer_label_probs_def masked_input_example3 ebind_Inr filt_example3 view_example3
  by simp

lemma generate_background_example3:
  "generate_background example_ext example_rnd example_inpainter
     [example_image, example_image] [right_half_mask, right_half_mask] = Inr [gray_image, gray_image]"
  unfolding generate_background_def infer_example3 ebind_Inr multinomial_example2 betas_example2 Let_def
  by (simp add: of_matrix_def py_iter_def example_ext_def stack_def)

lemma composite_example3:
  "composite [example_image, example_image] [right_half_mask, right_half_mask] [gray_image, gray_image] =
     Inr [imputed_example, imputed_example]"
  by (simp add: composite_def t_mul_def t_add_def cellwise_def row_lengths_def t_rsub_def
      example_image_def right_half_mask_def gray_image_def imputed_example_def)

lemma impute_example3:
  "impute_missing_imgs example_ext example_rnd example_inpainter
     [example_image, example_image] [right_half_mask, right_half_mask] =
     Inr [imputed_example, imputed_example]"
  unfolding impute_missing_imgs_def generate_background_example3 ebind_Inr
  by (rule composite_example3)

subsection \<open>The composite\<close>

text \<open>
  What the composite does. Whenever \<open>impute_missing_imgs\<close> returns, the output has the
  shape of \<open>x\<close>, equals \<open>x\<close> at every cell where the mask is 1 and equals the synthesized
  background at every cell where the mask is 0. With an all-one mask it is the input
  unchanged, with an all-zero mask it is the background.
\<close>

lemma impute_missing_imgs_cells:
  assumes "impute_missing_imgs ext rnd self x msk = Inr out"
  shows "\<exists>backgnd. generate_background ext rnd self x msk = Inr backgnd \<and>
           row_lengths out = row_lengths x \<and>
           (\<forall>idx. valid_index x idx \<longrightarrow>
              (cell msk idx = 1 \<longrightarrow> cell out idx = cell x idx) \<and>
              (cell msk idx = 0 \<longrightarrow> cell out idx = cell backgnd idx)) \<and>
           ((\<forall>idx. valid_index x idx \<longrightarrow> cell msk idx = 1) \<longrightarrow> out = x) \<and>
           ((\<forall>idx. valid_index x idx \<longrightarrow> cell msk idx = 0) \<longrightarrow> out = backgnd)"
proof -
  from assms obtain backgnd where
    bg: "generate_background ext rnd self x msk = Inr backgnd"
    and comp: "composite x msk backgnd = Inr out"
    unfolding impute_missing_imgs_def ebind_Inr_iff by blast
  note c = composite_cell [OF comp]
  have cells: "cell out idx = cell x idx * cell msk idx + cell backgnd idx * (1 - cell msk idx)"
    if "valid_index x idx" for idx using c(4) that by blast
  have one: "cell out idx = cell x idx" if "valid_index x idx" "cell msk idx = 1" for idx
    using cells [OF that(1)] that(2) by simp
  have zero: "cell out idx = cell backgnd idx" if "valid_index x idx" "cell msk idx = 0" for idx
    using cells [OF that(1)] that(2) by simp
  have all_one: "out = x" if "\<forall>idx. valid_index x idx \<longrightarrow> cell msk idx = 1"
  proof (rule tensor_eqI [OF c(3)])
    fix idx assume "valid_index out idx"
    then have v: "valid_index x idx" using valid_index_cong [OF c(3)] by simp
    with that have "cell msk idx = 1" by blast
    then show "cell out idx = cell x idx" using one [OF v] by simp
  qed
  have all_zero: "out = backgnd" if "\<forall>idx. valid_index x idx \<longrightarrow> cell msk idx = 0"
  proof (rule tensor_eqI)
    show "row_lengths out = row_lengths backgnd" using c(2) c(3) by simp
    fix idx assume "valid_index out idx"
    then have v: "valid_index x idx" using valid_index_cong [OF c(3)] by simp
    with that have "cell msk idx = 0" by blast
    then show "cell out idx = cell backgnd idx" using zero [OF v] by simp
  qed
  from bg c(3) one zero all_one all_zero show ?thesis by blast
qed


lemma impute_missing_imgs_cells_example:
  "impute_missing_imgs example_ext example_rnd example_inpainter
     [example_image, example_image] [right_half_mask, right_half_mask] =
     Inr [imputed_example, imputed_example] \<and>
   generate_background example_ext example_rnd example_inpainter
     [example_image, example_image] [right_half_mask, right_half_mask] =
     Inr [gray_image, gray_image] \<and>
   valid_index [example_image, example_image] (0, 0, 1, 4) \<and>
   cell [right_half_mask, right_half_mask] (0, 0, 1, 4) = 1 \<and>
   cell [imputed_example, imputed_example] (0, 0, 1, 4) = cell [example_image, example_image] (0, 0, 1, 4) \<and>
   valid_index [example_image, example_image] (0, 0, 1, 1) \<and>
   cell [right_half_mask, right_half_mask] (0, 0, 1, 1) = 0 \<and>
   cell [imputed_example, imputed_example] (0, 0, 1, 1) = cell [gray_image, gray_image] (0, 0, 1, 1)"
proof -
  from impute_missing_imgs_cells [OF impute_example3] generate_background_example3
  have cells: "\<forall>idx. valid_index [example_image, example_image] idx \<longrightarrow>
      (cell [right_half_mask, right_half_mask] idx = 1 \<longrightarrow>
         cell [imputed_example, imputed_example] idx = cell [example_image, example_image] idx) \<and>
      (cell [right_half_mask, right_half_mask] idx = 0 \<longrightarrow>
         cell [imputed_example, imputed_example] idx = cell [gray_image, gray_image] idx)"
    by simp
  have v1: "valid_index [example_image, example_image] (0, 0, 1, 4)"
    and v0: "valid_index [example_image, example_image] (0, 0, 1, 1)"
    by (simp_all add: valid_index_def example_image_def)
  have m1: "cell [right_half_mask, right_half_mask] (0, 0, 1, 4) = 1"
    and m0: "cell [right_half_mask, right_half_mask] (0, 0, 1, 1) = 0"
    by (simp_all add: cell_def right_half_mask_def)
  from cells v1 m1 have "cell [imputed_example, imputed_example] (0, 0, 1, 4) =
      cell [example_image, example_image] (0, 0, 1, 4)" by blast
  moreover from cells v0 m0 have "cell [imputed_example, imputed_example] (0, 0, 1, 1) =
      cell [gray_image, gray_image] (0, 0, 1, 1)" by blast
  ultimately show ?thesis
    using impute_example3 generate_background_example3 v1 v0 m1 m0 by simp
qed

text \<open>
  C1 says that the output of \<open>impute_missing_imgs\<close> equals \<open>x\<close> where the mask is 0 and
  the synthesized background where the mask is 1, so that an all-zero mask returns the
  input unchanged. \<open>infer_label_probs\<close> reads the mask in this sense: it keeps the pixels
  of \<open>x\<close> where the mask is 0 and hides those where it is 1. The composite reads it the
  other way round. On the example batch under the all-zero mask the output is the gray
  background and not the input: the pixel of value 1, which the mask leaves visible, comes
  back as 1/4.
\<close>

theorem impute_missing_imgs_zero_mask:
  "impute_missing_imgs example_ext example_rnd example_inpainter
     [example_image, example_image] [zero_image, zero_image] = Inr [gray_image, gray_image] \<and>
   cell [zero_image, zero_image] (0, 0, 1, 1) = 0 \<and>
   cell [example_image, example_image] (0, 0, 1, 1) = 1 \<and>
   cell [gray_image, gray_image] (0, 0, 1, 1) = 1 / 4 \<and>
   [gray_image, gray_image] \<noteq> [example_image, example_image]"
  using impute_example2
  by (simp add: cell_def zero_image_def example_image_def gray_image_def)

subsection \<open>Softmax, the top-two heuristic and renormalisation\<close>

lemma sort_desc_length [simp]: "length (sort_desc ps) = length ps"
  by (simp add: sort_desc_def)

lemma sort_desc_set [simp]: "set (sort_desc ps) = set ps"
  by (simp add: sort_desc_def)

lemma sort_desc_mono:
  assumes "i \<le> j" and "j < length ps"
  shows "sort_desc ps ! j \<le> sort_desc ps ! i"
proof -
  let ?n = "length ps"
  have "sort ps ! (?n - 1 - j) \<le> sort ps ! (?n - 1 - i)"
    using assms by (intro sorted_nth_mono) simp_all
  then show ?thesis using assms by (simp add: sort_desc_def rev_nth)
qed

lemma filter_sort_desc_length:
  "length (filter P (sort_desc ps)) = length (filter P ps)"
proof -
  have "filter P (sort_desc ps) = rev (sort (filter P ps))"
    by (simp add: sort_desc_def rev_filter [symmetric] filter_sort)
  then show ?thesis by simp
qed

lemma above_third_in_first_two:
  assumes "3 \<le> length ps"
  shows "filter (\<lambda>p. sort_desc ps ! 2 < p) (sort_desc ps) =
         filter (\<lambda>p. sort_desc ps ! 2 < p) (take 2 (sort_desc ps))"
proof -
  let ?s = "sort_desc ps"
  have "\<forall>p \<in> set (drop 2 ?s). \<not> ?s ! 2 < p"
  proof
    fix p assume "p \<in> set (drop 2 ?s)"
    then obtain k where k: "k < length (drop 2 ?s)" and p: "p = drop 2 ?s ! k"
      by (auto simp: in_set_conv_nth)
    then have "p = ?s ! (2 + k)" and "2 + k < length ps" by simp_all
    then have "p \<le> ?s ! 2" using sort_desc_mono [of 2 "2 + k" ps] by simp
    then show "\<not> ?s ! 2 < p" by simp
  qed
  then have "filter (\<lambda>p. ?s ! 2 < p) (drop 2 ?s) = []" by (simp add: filter_empty_conv)
  moreover have "?s = take 2 ?s @ drop 2 ?s" by simp
  ultimately show ?thesis by (metis append_Nil2 filter_append)
qed

lemma count_above_third:
  assumes "3 \<le> length ps"
  shows "length (filter (\<lambda>p. sort_desc ps ! 2 < p) ps) \<le> 2"
proof -
  have "length (filter (\<lambda>p. sort_desc ps ! 2 < p) ps) =
        length (filter (\<lambda>p. sort_desc ps ! 2 < p) (sort_desc ps))"
    by (simp add: filter_sort_desc_length)
  also have "\<dots> = length (filter (\<lambda>p. sort_desc ps ! 2 < p) (take 2 (sort_desc ps)))"
    by (simp only: above_third_in_first_two [OF assms])
  also have "\<dots> \<le> length (take 2 (sort_desc ps))" by (rule length_filter_le)
  also have "\<dots> \<le> 2" by simp
  finally show ?thesis .
qed

lemma count_above_third_exact:
  assumes "3 \<le> length ps" and "sort_desc ps ! 2 < sort_desc ps ! 1"
  shows "length (filter (\<lambda>p. sort_desc ps ! 2 < p) ps) = 2"
proof -
  let ?s = "sort_desc ps"
  have "\<forall>p \<in> set (take 2 ?s). ?s ! 2 < p"
  proof
    fix p assume "p \<in> set (take 2 ?s)"
    then obtain k where k: "k < 2" and p: "p = ?s ! k"
      using assms(1) by (auto simp: in_set_conv_nth)
    have "?s ! 1 \<le> ?s ! k" using k assms(1) by (intro sort_desc_mono) simp_all
    then show "?s ! 2 < p" using assms(2) p by simp
  qed
  then have "filter (\<lambda>p. ?s ! 2 < p) (take 2 ?s) = take 2 ?s" by (simp add: filter_id_conv)
  then have "length (filter (\<lambda>p. ?s ! 2 < p) (take 2 ?s)) = 2" using assms(1) by simp
  moreover have "length (filter (\<lambda>p. ?s ! 2 < p) ps) =
        length (filter (\<lambda>p. ?s ! 2 < p) ?s)"
    by (simp add: filter_sort_desc_length)
  ultimately show ?thesis by (simp only: above_third_in_first_two [OF assms(1)])
qed


lemma filter_sort_desc: "filter P (sort_desc ps) = sort_desc (filter P ps)"
  by (simp add: sort_desc_def rev_filter [symmetric] filter_sort)

lemma sum_exp_pos: "xs \<noteq> [] \<Longrightarrow> 0 < sum_list (map exp xs)" for xs :: "real list"
proof (induction xs)
  case Nil
  then show ?case by simp
next
  case (Cons a xs)
  have "0 \<le> sum_list (map exp xs)" by (rule sum_list_nonneg) auto
  moreover have "0 < exp a" by simp
  ultimately show ?case by (simp add: add_pos_nonneg)
qed

lemma softmax_pos:
  assumes "p \<in> set (softmax xs)"
  shows "0 < p"
proof -
  from assms obtain v where "v \<in> set xs" and p: "p = exp v / sum_list (map exp xs)"
    by (auto simp: softmax_def)
  then have "xs \<noteq> []" by auto
  then show ?thesis unfolding p using sum_exp_pos by simp
qed

lemma sum_list_divide: "sum_list (map (\<lambda>q. f q / c) qs) = sum_list (map f qs) / c" for c :: real
  by (induction qs) (simp_all add: add_divide_distrib)

lemma softmax_sum:
  assumes "xs \<noteq> []"
  shows "sum_list (softmax xs) = 1"
proof -
  have "sum_list (softmax xs) = sum_list (map exp xs) / sum_list (map exp xs)"
    by (simp add: softmax_def comp_def sum_list_divide)
  then show ?thesis using sum_exp_pos [OF assms] by simp
qed

lemma take_top_two_eq:
  "take_top_two ps = map (\<lambda>p. if p \<le> sort_desc ps ! 2 then 0 else p) ps"
  by (simp add: take_top_two_def Let_def not_less [symmetric] cong: if_cong)

lemma threshold_nonzero:
  fixes t :: real
  assumes "\<forall>p \<in> set ps. 0 < p"
  shows "filter (\<lambda>q. q \<noteq> 0) (map (\<lambda>p. if p \<le> t then 0 else p) ps) = filter (\<lambda>p. t < p) ps"
  using assms by (induction ps) auto

lemma take_top_two_nonzero:
  assumes "\<forall>p \<in> set ps. 0 < p"
  shows "filter (\<lambda>q. q \<noteq> 0) (take_top_two ps) = filter (\<lambda>p. sort_desc ps ! 2 < p) ps"
  unfolding take_top_two_eq by (rule threshold_nonzero [OF assms])


lemma take_top_two_length [simp]: "length (take_top_two ps) = length ps"
  by (simp add: take_top_two_eq)

lemma take_top_two_nonneg:
  assumes "\<forall>p \<in> set ps. 0 < p" and "q \<in> set (take_top_two ps)"
  shows "0 \<le> q"
  using assms unfolding take_top_two_eq by (auto simp: less_imp_le)

lemma member_le_sum_list_real:
  fixes qs :: "real list"
  assumes "\<forall>q \<in> set qs. 0 \<le> q" and "m \<in> set qs"
  shows "m \<le> sum_list qs"
  using assms
proof (induction qs)
  case Nil
  then show ?case by simp
next
  case (Cons q qs)
  have nn: "0 \<le> sum_list qs" using Cons.prems(1) by (intro sum_list_nonneg) simp
  show ?case
  proof (cases "m = q")
    case True
    then show ?thesis using nn by simp
  next
    case False
    then have "m \<le> sum_list qs" using Cons by simp
    moreover have "0 \<le> q" using Cons.prems(1) by simp
    ultimately show ?thesis by simp
  qed
qed

lemma sum_take_top_two_pos:
  assumes len: "3 \<le> length ps" and pos: "\<forall>p \<in> set ps. 0 < p"
    and gap: "sort_desc ps ! 2 < sort_desc ps ! 0"
  shows "0 < sum_list (take_top_two ps)"
proof -
  let ?m = "sort_desc ps ! 0"
  have "0 < length (sort_desc ps)" using len by auto
  then have "?m \<in> set (sort_desc ps)" by (rule nth_mem)
  then have m: "?m \<in> set ps" by simp
  then have "(\<lambda>p. if p \<le> sort_desc ps ! 2 then 0 else p) ?m \<in>
      (\<lambda>p. if p \<le> sort_desc ps ! 2 then 0 else p) ` set ps"
    by (rule imageI)
  then have "(if ?m \<le> sort_desc ps ! 2 then 0 else ?m) \<in> set (take_top_two ps)"
    unfolding take_top_two_eq by simp
  then have "?m \<in> set (take_top_two ps)" using gap by simp
  moreover have "\<forall>q \<in> set (take_top_two ps). 0 \<le> q"
    using take_top_two_nonneg [OF pos] by blast
  ultimately have "?m \<le> sum_list (take_top_two ps)" by (intro member_le_sum_list_real)
  moreover have "0 < ?m" using pos m by blast
  ultimately show ?thesis by simp
qed

lemma renormalise_fin:
  assumes "sum_list qs \<noteq> 0"
  shows "renormalise qs = map Fin (map (\<lambda>q. q / sum_list qs) qs)"
  using assms by (simp add: renormalise_def fdiv_def)

lemma renormalised_sum:
  fixes qs :: "real list"
  assumes "sum_list qs \<noteq> 0"
  shows "sum_list (map (\<lambda>q. q / sum_list qs) qs) = 1"
proof -
  have "sum_list (map (\<lambda>q. q / c) qs) = sum_list qs / c" for c :: real
    by (induction qs) (simp_all add: add_divide_distrib)
  then show ?thesis using assms by simp
qed

lemma renormalised_nonzero:
  fixes c :: real
  assumes "c \<noteq> 0"
  shows "length (filter (\<lambda>q. q \<noteq> 0) (map (\<lambda>q. q / c) qs)) = length (filter (\<lambda>q. q \<noteq> 0) qs)"
  using assms by (induction qs) auto

lemma top_three_tied:
  assumes len: "3 \<le> length ps" and tie: "sort_desc ps ! 0 \<le> sort_desc ps ! 2"
  shows "take_top_two ps = map (\<lambda>p. 0) ps" and "renormalise (take_top_two ps) = map (\<lambda>p. NaN) ps"
proof -
  have le: "p \<le> sort_desc ps ! 2" if "p \<in> set ps" for p
  proof -
    from that have "p \<in> set (sort_desc ps)" by simp
    then obtain k where "k < length (sort_desc ps)" and "sort_desc ps ! k = p"
      unfolding in_set_conv_nth by blast
    then have k: "k < length ps" and p: "p = sort_desc ps ! k" by simp_all
    have "sort_desc ps ! k \<le> sort_desc ps ! 0" using k by (intro sort_desc_mono) simp_all
    with tie p show ?thesis by simp
  qed
  then show z: "take_top_two ps = map (\<lambda>p. 0) ps"
    unfolding take_top_two_eq by (intro map_cong) simp_all
  have "sum_list (map (\<lambda>p. 0 :: real) ps) = 0" by simp
  then show "renormalise (take_top_two ps) = map (\<lambda>p. NaN) ps"
    unfolding z by (simp add: renormalise_def fdiv_def comp_def)
qed

lemma row_distribution:
  assumes len: "3 \<le> length row"
    and gap: "sort_desc (softmax row) ! 2 < sort_desc (softmax row) ! 0"
  shows "\<exists>qs. renormalise (take_top_two (softmax row)) = map Fin qs \<and> length qs = length row \<and>
           (\<forall>q \<in> set qs. 0 \<le> q) \<and> sum_list qs = 1 \<and> length (filter (\<lambda>q. q \<noteq> 0) qs) \<le> 2"
proof -
  let ?ps = "softmax row"
  let ?tt = "take_top_two ?ps"
  let ?S = "sum_list ?tt"
  let ?qs = "map (\<lambda>q. q / ?S) ?tt"
  have len': "3 \<le> length ?ps" using len by simp
  have pos: "\<forall>p \<in> set ?ps. 0 < p" using softmax_pos by blast
  have S: "0 < ?S" by (rule sum_take_top_two_pos [OF len' pos gap])
  then have S0: "?S \<noteq> 0" by simp
  have 1: "renormalise ?tt = map Fin ?qs" by (rule renormalise_fin [OF S0])
  have 2: "length ?qs = length row" by simp
  have 3: "\<forall>q \<in> set ?qs. 0 \<le> q"
    using take_top_two_nonneg [OF pos] S by (auto simp: divide_nonneg_pos)
  have 4: "sum_list ?qs = 1" by (rule renormalised_sum [OF S0])
  have "length (filter (\<lambda>q. q \<noteq> 0) ?qs) = length (filter (\<lambda>q. q \<noteq> 0) ?tt)"
    by (rule renormalised_nonzero [OF S0])
  also have "\<dots> = length (filter (\<lambda>p. sort_desc ?ps ! 2 < p) ?ps)"
    by (simp only: take_top_two_nonzero [OF pos])
  also have "\<dots> \<le> 2" by (rule count_above_third [OF len'])
  finally have 5: "length (filter (\<lambda>q. q \<noteq> 0) ?qs) \<le> 2" .
  from 1 2 3 4 5 show ?thesis by blast
qed

lemma infer_label_probs_rows:
  assumes "infer_label_probs ext rnd self x msk = Inr label_probs"
  shows "\<exists>xm logits rows. masked_input ext rnd x msk = Inr xm \<and> filt ext self xm = Inr logits \<and>
           view_rows (length x) (crop logits) = Inr rows \<and> length rows = length x \<and>
           (\<forall>row \<in> set rows. 3 \<le> length row) \<and>
           label_probs = map (\<lambda>row. renormalise (take_top_two (softmax row))) rows"
proof -
  from assms obtain xm logits rows where
    xm: "masked_input ext rnd x msk = Inr xm" and lg: "filt ext self xm = Inr logits"
    and vr: "view_rows (length x) (crop logits) = Inr rows"
    and lp: "(let label_probs = map softmax rows
        in if list_ex (\<lambda>row. length row \<le> 2) label_probs then Inl IndexError
           else Inr (map (\<lambda>ps. renormalise (take_top_two ps)) label_probs)) = Inr label_probs"
    unfolding infer_label_probs_def ebind_Inr_iff by blast
  from lp have ex: "\<not> list_ex (\<lambda>row. length row \<le> 2) (map softmax rows)"
    and eq: "label_probs = map (\<lambda>ps. renormalise (take_top_two ps)) (map softmax rows)"
    by (auto simp: Let_def split: if_splits)
  from ex have "\<forall>row \<in> set rows. 3 \<le> length row"
    by (auto simp: list_ex_iff not_le)
  moreover from eq have "label_probs = map (\<lambda>row. renormalise (take_top_two (softmax row))) rows"
    by (simp add: comp_def)
  ultimately show ?thesis using xm lg vr view_rows_length [OF vr] by blast
qed


lemma kept_two_highest:
  assumes len: "3 \<le> length ps" and pos: "\<forall>p \<in> set ps. 0 < p"
    and gap: "sort_desc ps ! 2 < sort_desc ps ! 1"
  shows "sort_desc (filter (\<lambda>q. q \<noteq> 0) (take_top_two ps)) = take 2 (sort_desc ps)"
proof -
  let ?s = "sort_desc ps"
  have "\<forall>p \<in> set (take 2 ?s). ?s ! 2 < p"
  proof
    fix p assume "p \<in> set (take 2 ?s)"
    then obtain k where "k < length (take 2 ?s)" and "take 2 ?s ! k = p"
      unfolding in_set_conv_nth by blast
    then have k: "k < 2" and p: "p = ?s ! k" by simp_all
    have "?s ! 1 \<le> ?s ! k" using k len by (intro sort_desc_mono) simp_all
    then show "?s ! 2 < p" using gap p by simp
  qed
  then have all: "filter (\<lambda>p. ?s ! 2 < p) (take 2 ?s) = take 2 ?s" by (simp add: filter_id_conv)
  have "sort_desc (filter (\<lambda>q. q \<noteq> 0) (take_top_two ps)) = sort_desc (filter (\<lambda>p. ?s ! 2 < p) ps)"
    by (simp only: take_top_two_nonzero [OF pos])
  also have "\<dots> = filter (\<lambda>p. ?s ! 2 < p) ?s" by (rule filter_sort_desc [symmetric])
  also have "\<dots> = filter (\<lambda>p. ?s ! 2 < p) (take 2 ?s)" by (rule above_third_in_first_two [OF len])
  also have "\<dots> = take 2 ?s" by (rule all)
  finally show ?thesis .
qed

lemma sort_desc_three:
  fixes a b c :: real
  assumes "c < b" and "b < a"
  shows "sort_desc [a, c, b] = [a, b, c]"
  using assms by (simp add: sort_desc_def)

lemma sort_desc_tied_tail:
  fixes a b :: real
  assumes "b < a"
  shows "sort_desc [a, b, b] = [a, b, b]"
  using assms by (simp add: sort_desc_def)


subsection \<open>The sparsification step\<close>

text \<open>
  C3, as the code has it. Whenever \<open>infer_label_probs\<close> returns, every row of its result
  comes from a row of at least three logits as follows. The third-highest softmax
  probability is found by sorting; every probability at or below it is set to zero, which
  keeps at most two probabilities, namely those strictly above it; when the second-highest
  probability exceeds the third-highest, the kept ones are exactly the two highest; and
  when the highest exceeds the third-highest, the division by the sum of the kept
  probabilities yields numbers that sum to 1.
\<close>

theorem infer_label_probs_sparsification:
  assumes "infer_label_probs ext rnd self x msk = Inr label_probs"
  shows "\<exists>xm logits rows.
           masked_input ext rnd x msk = Inr xm \<and> filt ext self xm = Inr logits \<and>
           view_rows (length x) (crop logits) = Inr rows \<and>
           label_probs = map (\<lambda>row. renormalise (take_top_two (softmax row))) rows \<and>
           (\<forall>row \<in> set rows.
              3 \<le> length row \<and>
              (let ps = softmax row; third = sort_desc ps ! 2; kept = take_top_two ps
               in kept = map (\<lambda>p. if p \<le> third then 0 else p) ps \<and>
                  length (filter (\<lambda>q. q \<noteq> 0) kept) \<le> 2 \<and>
                  (third < sort_desc ps ! 1 \<longrightarrow>
                     sort_desc (filter (\<lambda>q. q \<noteq> 0) kept) = take 2 (sort_desc ps)) \<and>
                  (third < sort_desc ps ! 0 \<longrightarrow>
                     (\<exists>qs. renormalise kept = map Fin qs \<and>
                           qs = map (\<lambda>q. q / sum_list kept) kept \<and> sum_list qs = 1))))"
proof -
  from infer_label_probs_rows [OF assms] obtain xm logits rows where
    xm: "masked_input ext rnd x msk = Inr xm" and lg: "filt ext self xm = Inr logits"
    and vr: "view_rows (length x) (crop logits) = Inr rows"
    and len: "\<forall>row \<in> set rows. 3 \<le> length row"
    and lp: "label_probs = map (\<lambda>row. renormalise (take_top_two (softmax row))) rows"
    by blast
  have "3 \<le> length row \<and>
        (let ps = softmax row; third = sort_desc ps ! 2; kept = take_top_two ps
         in kept = map (\<lambda>p. if p \<le> third then 0 else p) ps \<and>
            length (filter (\<lambda>q. q \<noteq> 0) kept) \<le> 2 \<and>
            (third < sort_desc ps ! 1 \<longrightarrow>
               sort_desc (filter (\<lambda>q. q \<noteq> 0) kept) = take 2 (sort_desc ps)) \<and>
            (third < sort_desc ps ! 0 \<longrightarrow>
               (\<exists>qs. renormalise kept = map Fin qs \<and>
                     qs = map (\<lambda>q. q / sum_list kept) kept \<and> sum_list qs = 1)))"
    if row: "row \<in> set rows" for row
  proof -
    let ?ps = "softmax row"
    from len row have l: "3 \<le> length row" by blast
    then have l': "3 \<le> length ?ps" by simp
    have pos: "\<forall>p \<in> set ?ps. 0 < p" using softmax_pos by blast
    have a: "take_top_two ?ps = map (\<lambda>p. if p \<le> sort_desc ?ps ! 2 then 0 else p) ?ps"
      by (rule take_top_two_eq)
    have b: "length (filter (\<lambda>q. q \<noteq> 0) (take_top_two ?ps)) \<le> 2"
      unfolding take_top_two_nonzero [OF pos] by (rule count_above_third [OF l'])
    have c: "sort_desc (filter (\<lambda>q. q \<noteq> 0) (take_top_two ?ps)) = take 2 (sort_desc ?ps)"
      if "sort_desc ?ps ! 2 < sort_desc ?ps ! 1"
      by (rule kept_two_highest [OF l' pos that])
    have d: "\<exists>qs. renormalise (take_top_two ?ps) = map Fin qs \<and>
               qs = map (\<lambda>q. q / sum_list (take_top_two ?ps)) (take_top_two ?ps) \<and> sum_list qs = 1"
      if "sort_desc ?ps ! 2 < sort_desc ?ps ! 0"
    proof -
      have "0 < sum_list (take_top_two ?ps)" by (rule sum_take_top_two_pos [OF l' pos that])
      then have S0: "sum_list (take_top_two ?ps) \<noteq> 0" by simp
      from renormalise_fin [OF S0] renormalised_sum [OF S0] show ?thesis by blast
    qed
    from l a b c d show ?thesis unfolding Let_def by blast
  qed
  with xm lg vr lp show ?thesis by blast
qed

lemma softmax_example2:
  "softmax [1 / 4, 0, 1 / 8] =
     [exp (1 / 4) / (exp (1 / 4) + 1 + exp (1 / 8)),
      1 / (exp (1 / 4) + 1 + exp (1 / 8)),
      exp (1 / 8) / (exp (1 / 4) + 1 + exp (1 / 8))]"
  by (simp add: softmax_def add.assoc)

lemma sort_desc_softmax_example2:
  "sort_desc (softmax [1 / 4, 0, 1 / 8]) =
     [exp (1 / 4) / (exp (1 / 4) + 1 + exp (1 / 8)),
      exp (1 / 8) / (exp (1 / 4) + 1 + exp (1 / 8)),
      1 / (exp (1 / 4) + 1 + exp (1 / 8))]"
proof -
  let ?Z = "exp (1 / 4) + 1 + exp (1 / 8) :: real"
  have Z: "0 < ?Z" by (simp add: add_pos_pos)
  have "(1 :: real) < exp (1 / 8)" by simp
  then have 1: "1 / ?Z < exp (1 / 8) / ?Z" using Z by (simp add: divide_strict_right_mono)
  have "exp (1 / 8 :: real) < exp (1 / 4)" by simp
  then have 2: "exp (1 / 8) / ?Z < exp (1 / 4) / ?Z" using Z by (simp add: divide_strict_right_mono)
  show ?thesis unfolding softmax_example2 by (rule sort_desc_three [OF 1 2])
qed

theorem infer_label_probs_sparsification_witness:
  "infer_label_probs example_ext example_rnd example_inpainter
     [example_image, example_image] [zero_image, zero_image] =
     Inr [renormalise (take_top_two (softmax [1 / 4, 0, 1 / 8])),
          renormalise (take_top_two (softmax [1 / 4, 0, 1 / 8]))] \<and>
   sort_desc (softmax [1 / 4, 0, 1 / 8]) ! 2 < sort_desc (softmax [1 / 4, 0, 1 / 8]) ! 1 \<and>
   sort_desc (softmax [1 / 4, 0, 1 / 8]) ! 2 < sort_desc (softmax [1 / 4, 0, 1 / 8]) ! 0 \<and>
   sort_desc (filter (\<lambda>q. q \<noteq> 0) (take_top_two (softmax [1 / 4, 0, 1 / 8]))) =
     take 2 (sort_desc (softmax [1 / 4, 0, 1 / 8])) \<and>
   (\<exists>qs. renormalise (take_top_two (softmax [1 / 4, 0, 1 / 8])) = map Fin qs \<and> sum_list qs = 1)"
proof -
  let ?row = "[1 / 4, 0, 1 / 8] :: real list"
  let ?ps = "softmax ?row"
  let ?Z = "exp (1 / 4) + 1 + exp (1 / 8) :: real"
  have Z: "0 < ?Z" by (simp add: add_pos_pos)
  have g1: "sort_desc ?ps ! 2 < sort_desc ?ps ! 1"
    unfolding sort_desc_softmax_example2 using Z by (simp add: divide_strict_right_mono)
  have g0: "sort_desc ?ps ! 2 < sort_desc ?ps ! 0"
    unfolding sort_desc_softmax_example2 using Z by (simp add: divide_strict_right_mono)
  from infer_label_probs_sparsification [OF infer_example2] obtain xm logits rows where
    xm: "masked_input example_ext example_rnd [example_image, example_image] [zero_image, zero_image] = Inr xm"
    and lg: "filt example_ext example_inpainter xm = Inr logits"
    and vr: "view_rows (length [example_image, example_image]) (crop logits) = Inr rows"
    and rows: "\<forall>row \<in> set rows.
              3 \<le> length row \<and>
              (let ps = softmax row; third = sort_desc ps ! 2; kept = take_top_two ps
               in kept = map (\<lambda>p. if p \<le> third then 0 else p) ps \<and>
                  length (filter (\<lambda>q. q \<noteq> 0) kept) \<le> 2 \<and>
                  (third < sort_desc ps ! 1 \<longrightarrow>
                     sort_desc (filter (\<lambda>q. q \<noteq> 0) kept) = take 2 (sort_desc ps)) \<and>
                  (third < sort_desc ps ! 0 \<longrightarrow>
                     (\<exists>qs. renormalise kept = map Fin qs \<and>
                           qs = map (\<lambda>q. q / sum_list kept) kept \<and> sum_list qs = 1)))"
    by blast
  from xm have "xm = [example_image, example_image]" by (simp add: masked_input_example2)
  with lg have "logits =
     [[[[1 / 4, 1 / 4, 0, 1 / 8, 1 / 8], [1 / 4, 1 / 4, 0, 1 / 8, 1 / 8], [0, 0, 0, 0, 0]]],
      [[[1 / 4, 1 / 4, 0, 1 / 8, 1 / 8], [1 / 4, 1 / 4, 0, 1 / 8, 1 / 8], [0, 0, 0, 0, 0]]]]"
    by (simp add: filt_example2)
  with vr have "rows = [?row, ?row]" by (simp only: view_example2 sum.inject)
  then have "?row \<in> set rows" by simp
  with rows have
    "(sort_desc ?ps ! 2 < sort_desc ?ps ! 1 \<longrightarrow>
        sort_desc (filter (\<lambda>q. q \<noteq> 0) (take_top_two ?ps)) = take 2 (sort_desc ?ps)) \<and>
     (sort_desc ?ps ! 2 < sort_desc ?ps ! 0 \<longrightarrow>
        (\<exists>qs. renormalise (take_top_two ?ps) = map Fin qs \<and>
              qs = map (\<lambda>q. q / sum_list (take_top_two ?ps)) (take_top_two ?ps) \<and> sum_list qs = 1))"
    unfolding Let_def by blast
  with g1 g0 have "sort_desc (filter (\<lambda>q. q \<noteq> 0) (take_top_two ?ps)) = take 2 (sort_desc ?ps)"
    and "\<exists>qs. renormalise (take_top_two ?ps) = map Fin qs \<and> sum_list qs = 1"
    by blast+
  with g1 g0 infer_example2 show ?thesis by blast
qed


lemma top_two_tied_tail:
  fixes a b :: real
  assumes "b < a" and "a \<noteq> 0"
  shows "take_top_two [a, b, b] = [a, 0, 0]"
    and "renormalise (take_top_two [a, b, b]) = [Fin 1, Fin 0, Fin 0]"
proof -
  show t: "take_top_two [a, b, b] = [a, 0, 0]"
    using assms(1) by (simp add: take_top_two_def sort_desc_tied_tail)
  show "renormalise (take_top_two [a, b, b]) = [Fin 1, Fin 0, Fin 0]"
    unfolding t using assms(2) by (simp add: renormalise_def fdiv_def)
qed

lemma softmax_example3:
  "softmax [1 / 4, 0, 0] =
     [exp (1 / 4) / (exp (1 / 4) + 2), 1 / (exp (1 / 4) + 2), 1 / (exp (1 / 4) + 2)]"
  by (simp add: softmax_def)

lemma masked_input_zero_mask_any_draw:
  "masked_input example_ext rnd [masked_example, masked_example] [zero_image, zero_image] =
     Inr [masked_example, masked_example]"
  by (simp add: masked_input_def t_mul_def t_add_def cellwise_def row_lengths_def t_rsub_def
      t_smul_def randn_def tensor_shape_def example_ext_def masked_example_def zero_image_def)

lemma view_tied:
  "view_rows (length [masked_example, masked_example])
     (crop [[[[1 / 4, 1 / 4, 0, 0, 0], [1 / 4, 1 / 4, 0, 0, 0], [0, 0, 0, 0, 0]]],
            [[[1 / 4, 1 / 4, 0, 0, 0], [1 / 4, 1 / 4, 0, 0, 0], [0, 0, 0, 0, 0]]]]) =
     Inr [[1 / 4, 0, 0], [1 / 4, 0, 0]]"
  by code_simp

lemma renormalise_tied: "renormalise (take_top_two (softmax [1 / 4, 0, 0])) = [Fin 1, Fin 0, Fin 0]"
  and kept_tied: "length (filter (\<lambda>q. q \<noteq> 0) (take_top_two (softmax [1 / 4, 0, 0]))) = 1"
proof -
  let ?Z = "exp (1 / 4) + 2 :: real"
  have Z: "0 < ?Z" by (simp add: add_pos_pos)
  have "(1 :: real) < exp (1 / 4)" by simp
  then have lt: "1 / ?Z < exp (1 / 4) / ?Z" using Z by (simp add: divide_strict_right_mono)
  have ne: "exp (1 / 4) / ?Z \<noteq> 0" using Z by simp
  have t: "take_top_two (softmax [1 / 4, 0, 0]) = [exp (1 / 4) / ?Z, 0, 0]"
    unfolding softmax_example3 by (rule top_two_tied_tail(1) [OF lt ne])
  show "renormalise (take_top_two (softmax [1 / 4, 0, 0])) = [Fin 1, Fin 0, Fin 0]"
    unfolding softmax_example3 by (rule top_two_tied_tail(2) [OF lt ne])
  show "length (filter (\<lambda>q. q \<noteq> 0) (take_top_two (softmax [1 / 4, 0, 0]))) = 1"
    unfolding t using ne by simp
qed

lemma infer_tied_any_draw:
  "infer_label_probs example_ext rnd example_inpainter
     [masked_example, masked_example] [zero_image, zero_image] =
     Inr [[Fin 1, Fin 0, Fin 0], [Fin 1, Fin 0, Fin 0]]"
  unfolding infer_label_probs_def masked_input_zero_mask_any_draw ebind_Inr filt_example3 view_tied
  by (simp add: renormalise_tied)

text \<open>
  Not always are exactly two probabilities kept. Take the batch of two images whose only
  lit pixel is the pixel of value 1 in row 1 and column 1, under the all-zero mask, so that
  no noise enters whatever the random source draws. The cropped logits of each image are
  1/4, 0 and 0, the second-highest and the third-highest probability coincide, and only
  the highest is kept.
\<close>

theorem top_two_tie_counterexample:
  "infer_label_probs example_ext noisy_rnd example_inpainter
     [masked_example, masked_example] [zero_image, zero_image] =
     Inr [[Fin 1, Fin 0, Fin 0], [Fin 1, Fin 0, Fin 0]] \<and>
   masked_input example_ext noisy_rnd [masked_example, masked_example] [zero_image, zero_image] =
     Inr [masked_example, masked_example] \<and>
   filt example_ext example_inpainter [masked_example, masked_example] =
     Inr [[[[1 / 4, 1 / 4, 0, 0, 0], [1 / 4, 1 / 4, 0, 0, 0], [0, 0, 0, 0, 0]]],
          [[[1 / 4, 1 / 4, 0, 0, 0], [1 / 4, 1 / 4, 0, 0, 0], [0, 0, 0, 0, 0]]]] \<and>
   view_rows (length [masked_example, masked_example])
     (crop [[[[1 / 4, 1 / 4, 0, 0, 0], [1 / 4, 1 / 4, 0, 0, 0], [0, 0, 0, 0, 0]]],
            [[[1 / 4, 1 / 4, 0, 0, 0], [1 / 4, 1 / 4, 0, 0, 0], [0, 0, 0, 0, 0]]]]) =
     Inr [[1 / 4, 0, 0], [1 / 4, 0, 0]] \<and>
   length (filter (\<lambda>q. q \<noteq> 0) (take_top_two (softmax [1 / 4, 0, 0]))) = 1"
  using infer_tied_any_draw [of noisy_rnd] masked_input_zero_mask_any_draw [of noisy_rnd]
    filt_example3 view_tied kept_tied
  by simp

subsection \<open>The label distribution\<close>

text \<open>
  Whenever \<open>infer_label_probs\<close> returns, a row whose highest probability exceeds its
  third-highest is a vector of non-negative numbers over all labels that sums to 1 and has
  at most two non-zero entries; a row whose three highest probabilities coincide consists
  of not-a-number entries only.
\<close>

lemma infer_label_probs_distribution:
  assumes "infer_label_probs ext rnd self x msk = Inr label_probs"
  shows "\<exists>xm logits rows.
           masked_input ext rnd x msk = Inr xm \<and> filt ext self xm = Inr logits \<and>
           view_rows (length x) (crop logits) = Inr rows \<and>
           label_probs = map (\<lambda>row. renormalise (take_top_two (softmax row))) rows \<and>
           (\<forall>row \<in> set rows.
              (sort_desc (softmax row) ! 2 < sort_desc (softmax row) ! 0 \<longrightarrow>
                 (\<exists>qs. renormalise (take_top_two (softmax row)) = map Fin qs \<and>
                       length qs = length row \<and> (\<forall>q \<in> set qs. 0 \<le> q) \<and> sum_list qs = 1 \<and>
                       length (filter (\<lambda>q. q \<noteq> 0) qs) \<le> 2)) \<and>
              (sort_desc (softmax row) ! 0 \<le> sort_desc (softmax row) ! 2 \<longrightarrow>
                 renormalise (take_top_two (softmax row)) = map (\<lambda>v. NaN) row))"
proof -
  from infer_label_probs_rows [OF assms] obtain xm logits rows where
    xm: "masked_input ext rnd x msk = Inr xm" and lg: "filt ext self xm = Inr logits"
    and vr: "view_rows (length x) (crop logits) = Inr rows"
    and len: "\<forall>row \<in> set rows. 3 \<le> length row"
    and lp: "label_probs = map (\<lambda>row. renormalise (take_top_two (softmax row))) rows"
    by blast
  have "(sort_desc (softmax row) ! 2 < sort_desc (softmax row) ! 0 \<longrightarrow>
                 (\<exists>qs. renormalise (take_top_two (softmax row)) = map Fin qs \<and>
                       length qs = length row \<and> (\<forall>q \<in> set qs. 0 \<le> q) \<and> sum_list qs = 1 \<and>
                       length (filter (\<lambda>q. q \<noteq> 0) qs) \<le> 2)) \<and>
              (sort_desc (softmax row) ! 0 \<le> sort_desc (softmax row) ! 2 \<longrightarrow>
                 renormalise (take_top_two (softmax row)) = map (\<lambda>v. NaN) row)"
    if "row \<in> set rows" for row
  proof -
    from len that have l: "3 \<le> length row" by blast
    then have l': "3 \<le> length (softmax row)" by simp
    have "renormalise (take_top_two (softmax row)) = map (\<lambda>v. NaN) row"
      if "sort_desc (softmax row) ! 0 \<le> sort_desc (softmax row) ! 2"
      using top_three_tied(2) [OF l' that] by (simp add: softmax_def comp_def)
    then show ?thesis using row_distribution [OF l] by blast
  qed
  with xm lg vr lp show ?thesis by blast
qed


lemma masked_input_example0:
  "masked_input example_ext example_rnd [zero_image, zero_image] [zero_image, zero_image] =
     Inr [zero_image, zero_image]"
  by (simp add: masked_input_def t_mul_def t_add_def cellwise_def row_lengths_def t_rsub_def
      t_smul_def randn_def tensor_shape_def example_ext_def example_rnd_def zero_image_def)

lemma filt_example0:
  "filt example_ext example_inpainter [zero_image, zero_image] =
     Inr [[[[0, 0, 0, 0, 0], [0, 0, 0, 0, 0], [0, 0, 0, 0, 0]]],
          [[[0, 0, 0, 0, 0], [0, 0, 0, 0, 0], [0, 0, 0, 0, 0]]]]"
  by (simp add: filt_def example_inpainter_def avg_pool2d_def tensor_shape_def zero_image_def
      avg_pool_grid_def pool_windows_def)

lemma view_example0:
  "view_rows (length [zero_image, zero_image])
     (crop [[[[0, 0, 0, 0, 0], [0, 0, 0, 0, 0], [0, 0, 0, 0, 0]]],
            [[[0, 0, 0, 0, 0], [0, 0, 0, 0, 0], [0, 0, 0, 0, 0]]]]) =
     Inr [[0, 0, 0], [0, 0, 0]]"
  by code_simp

lemma softmax_zero: "softmax [0, 0, 0] = [1 / 3, 1 / 3, 1 / 3]"
  by (simp add: softmax_def)

lemma renormalise_uniform: "renormalise (take_top_two (softmax [0, 0, 0])) = [NaN, NaN, NaN]"
  unfolding softmax_zero by (simp add: take_top_two_def sort_desc_def renormalise_def fdiv_def)

text \<open>
  C2 says that label inference returns, for each image, a non-negative vector that sums to
  1 and has at most two non-zero entries. It does not on an input whose filter response is
  constant: for a batch of black images under the all-zero mask the softmax is uniform, no
  probability exceeds the third-highest, every probability is set to zero, and the
  division 0 / 0 leaves rows of not-a-number in place of a distribution.
\<close>

theorem infer_label_probs_uniform_nan:
  "infer_label_probs example_ext example_rnd example_inpainter
     [zero_image, zero_image] [zero_image, zero_image] =
     Inr [[NaN, NaN, NaN], [NaN, NaN, NaN]]"
  unfolding infer_label_probs_def masked_input_example0 ebind_Inr filt_example0 view_example0
  by (simp add: renormalise_uniform)

subsection \<open>Determinism once the noise is fixed\<close>

lemma row_lengths_randn: "row_lengths (randn z shp) = row_lengths (randn z' shp)"
  by (cases shp) (simp add: randn_def row_lengths_def comp_def)

lemma cell_randn:
  assumes "valid_index (randn z shp) (i, j, k, l)"
  shows "cell (randn z shp) (i, j, k, l) = z i j k l"
proof -
  obtain n c h w where shp: "shp = (n, c, h, w)" by (cases shp)
  from assms have "i < n" unfolding shp by (simp add: valid_index_def randn_def)
  moreover from assms this have "j < c" unfolding shp by (simp add: valid_index_def randn_def)
  moreover from assms calculation have "k < h" unfolding shp by (simp add: valid_index_def randn_def)
  moreover from assms calculation have "l < w" unfolding shp by (simp add: valid_index_def randn_def)
  ultimately show ?thesis unfolding shp by (simp add: cell_def randn_def)
qed

lemma row_lengths_t_smul: "row_lengths (t_smul t a) = row_lengths t"
  by (simp add: row_lengths_def t_smul_def comp_def)

lemma cell_t_smul:
  assumes "valid_index t idx"
  shows "cell (t_smul t a) idx = cell t idx * a"
proof -
  obtain n c i j where idx: "idx = (n, c, i, j)" by (cases idx)
  from assms show ?thesis by (simp add: valid_index_def idx cell_def t_smul_def)
qed

lemma noise_term_occluded_only:
  assumes agree: "\<And>i j k l. valid_index msk (i, j, k, l) \<Longrightarrow> cell msk (i, j, k, l) \<noteq> 0 \<Longrightarrow>
                    z i j k l = z' i j k l"
  shows "t_mul (t_smul msk a) (randn z (tensor_shape msk)) =
         t_mul (t_smul msk a) (randn z' (tensor_shape msk))"
proof -
  let ?M = "t_smul msk a"
  let ?R = "randn z (tensor_shape msk)"
  let ?R' = "randn z' (tensor_shape msk)"
  have rr: "row_lengths ?R = row_lengths ?R'" by (rule row_lengths_randn)
  show ?thesis
  proof (cases "row_lengths ?M = row_lengths ?R")
    case False
    then show ?thesis using rr by (simp add: t_mul_def cellwise_def)
  next
    case g: True
    then have g': "row_lengths ?M = row_lengths ?R'" using rr by simp
    have "map2 (map2 (map2 (map2 (*)))) ?M ?R = map2 (map2 (map2 (map2 (*)))) ?M ?R'"
    proof (rule tensor_eqI)
      show "row_lengths (map2 (map2 (map2 (map2 (*)))) ?M ?R) =
            row_lengths (map2 (map2 (map2 (map2 (*)))) ?M ?R')"
        by (simp only: row_lengths_map2 [OF g] row_lengths_map2 [OF g'])
    next
      fix idx assume "valid_index (map2 (map2 (map2 (map2 (*)))) ?M ?R) idx"
      then have vM: "valid_index ?M idx"
        using valid_index_cong [OF row_lengths_map2 [OF g]] by simp
      then have vm: "valid_index msk idx"
        using valid_index_cong [OF row_lengths_t_smul] by simp
      from vM have vR: "valid_index ?R idx" using valid_index_cong [OF g] by simp
      from vM have vR': "valid_index ?R' idx" using valid_index_cong [OF g'] by simp
      obtain i j k l where idx: "idx = (i, j, k, l)" by (cases idx)
      have cM: "cell ?M idx = cell msk idx * a" by (rule cell_t_smul [OF vm])
      have "cell ?M idx * cell ?R idx = cell ?M idx * cell ?R' idx"
      proof (cases "cell msk idx = 0")
        case True
        then show ?thesis by (simp add: cM)
      next
        case False
        then have "z i j k l = z' i j k l" using agree vm unfolding idx by blast
        moreover have "cell ?R idx = z i j k l" using vR unfolding idx by (rule cell_randn)
        moreover have "cell ?R' idx = z' i j k l" using vR' unfolding idx by (rule cell_randn)
        ultimately show ?thesis by simp
      qed
      then show "cell (map2 (map2 (map2 (map2 (*)))) ?M ?R) idx =
                 cell (map2 (map2 (map2 (map2 (*)))) ?M ?R') idx"
        by (simp only: cell_map2 [OF g vM] cell_map2 [OF g' vM])
    qed
    then show ?thesis using g g' by (simp add: t_mul_def cellwise_def)
  qed
qed

lemma masked_input_noisy:
  "masked_input example_ext noisy_rnd [example_image, example_image] [right_half_mask, right_half_mask] =
     Inr [noisy_masked_example, noisy_masked_example]"
  by (simp add: masked_input_def t_mul_def t_add_def cellwise_def row_lengths_def t_rsub_def
      t_smul_def randn_def tensor_shape_def example_ext_def noisy_rnd_def example_image_def
      right_half_mask_def noisy_masked_example_def)

lemma filt_noisy:
  "filt example_ext example_inpainter [noisy_masked_example, noisy_masked_example] =
     Inr [[[[1 / 4, 1 / 4, 1 / 20, 1 / 10, 1 / 10], [1 / 4, 1 / 4, 1 / 20, 1 / 10, 1 / 10],
            [0, 0, 1 / 20, 1 / 10, 1 / 10]]],
          [[[1 / 4, 1 / 4, 1 / 20, 1 / 10, 1 / 10], [1 / 4, 1 / 4, 1 / 20, 1 / 10, 1 / 10],
            [0, 0, 1 / 20, 1 / 10, 1 / 10]]]]"
  by (simp add: filt_def example_inpainter_def avg_pool2d_def tensor_shape_def noisy_masked_example_def
      avg_pool_grid_def pool_windows_def)

lemma view_noisy:
  "view_rows (length [example_image, example_image])
     (crop [[[[1 / 4, 1 / 4, 1 / 20, 1 / 10, 1 / 10], [1 / 4, 1 / 4, 1 / 20, 1 / 10, 1 / 10],
            [0, 0, 1 / 20, 1 / 10, 1 / 10]]],
          [[[1 / 4, 1 / 4, 1 / 20, 1 / 10, 1 / 10], [1 / 4, 1 / 4, 1 / 20, 1 / 10, 1 / 10],
            [0, 0, 1 / 20, 1 / 10, 1 / 10]]]]) =
     Inr [[1 / 4, 1 / 20, 1 / 10], [1 / 4, 1 / 20, 1 / 10]]"
  by code_simp

lemma infer_noisy:
  "infer_label_probs example_ext noisy_rnd example_inpainter
     [example_image, example_image] [right_half_mask, right_half_mask] =
     Inr [renormalise (take_top_two (softmax [1 / 4, 1 / 20, 1 / 10])),
          renormalise (take_top_two (softmax [1 / 4, 1 / 20, 1 / 10]))]"
  unfolding infer_label_probs_def masked_input_noisy ebind_Inr filt_noisy view_noisy
  by simp

lemma top_two_distinct:
  fixes a b c :: real
  assumes "c < b" and "b < a" and "0 < c"
  shows "renormalise (take_top_two [a, c, b]) = [Fin (a / (a + b)), Fin 0, Fin (b / (a + b))]"
proof -
  have t: "take_top_two [a, c, b] = [a, 0, b]"
    using assms by (simp add: take_top_two_def sort_desc_three)
  have "a + b \<noteq> 0" using assms by simp
  then show ?thesis unfolding t by (simp add: renormalise_def fdiv_def)
qed

lemma renormalise_noisy:
  "\<exists>p q. q \<noteq> 0 \<and> renormalise (take_top_two (softmax [1 / 4, 1 / 20, 1 / 10])) = [Fin p, Fin 0, Fin q]"
proof -
  let ?Z = "exp (1 / 4) + exp (1 / 20) + exp (1 / 10) :: real"
  have Z: "0 < ?Z" by (simp add: add_pos_pos)
  have s: "softmax [1 / 4, 1 / 20, 1 / 10] = [exp (1 / 4) / ?Z, exp (1 / 20) / ?Z, exp (1 / 10) / ?Z]"
    by (simp add: softmax_def add.assoc)
  have "exp (1 / 20 :: real) < exp (1 / 10)" by simp
  then have 1: "exp (1 / 20) / ?Z < exp (1 / 10) / ?Z" using Z by (simp add: divide_strict_right_mono)
  have "exp (1 / 10 :: real) < exp (1 / 4)" by simp
  then have 2: "exp (1 / 10) / ?Z < exp (1 / 4) / ?Z" using Z by (simp add: divide_strict_right_mono)
  have 3: "0 < exp (1 / 20) / ?Z" using Z by simp
  have 4: "0 < exp (1 / 10) / ?Z" using Z by simp
  have 5: "0 < exp (1 / 4) / ?Z" using Z by simp
  have pos: "0 < b / (a + b)" if "0 < a" "0 < b" for a b :: real
    using that by (simp add: add_pos_pos)
  have "exp (1 / 10) / ?Z / (exp (1 / 4) / ?Z + exp (1 / 10) / ?Z) \<noteq> 0"
    using pos [OF 5 4] by (rule less_imp_neq [THEN not_sym])
  then show ?thesis unfolding s top_two_distinct [OF 1 2 3] by blast
qed

lemma infer_zero_noise:
  "infer_label_probs example_ext example_rnd example_inpainter
     [example_image, example_image] [right_half_mask, right_half_mask] =
     Inr [[Fin 1, Fin 0, Fin 0], [Fin 1, Fin 0, Fin 0]]"
  using infer_example3 renormalise_tied by simp

lemma right_half_mask_cell:
  assumes "valid_index [right_half_mask, right_half_mask] (i, j, k, l)"
    and "cell [right_half_mask, right_half_mask] (i, j, k, l) \<noteq> 0"
  shows "\<not> l < 3"
proof -
  have r: "right_half_mask = replicate 1 (replicate 4 [0, 0, 0, 1, 1, 1])"
    by (simp add: right_half_mask_def numeral_eq_Suc)
  have b: "[right_half_mask, right_half_mask] = replicate 2 (replicate 1 (replicate 4 [0, 0, 0, 1, 1, 1]))"
    by (simp add: r numeral_eq_Suc)
  from assms(1) have i: "i < 2" unfolding b by (simp add: valid_index_def)
  from assms(1) i have j: "j < 1" unfolding b by (simp add: valid_index_def)
  from assms(1) i j have k: "k < 4" unfolding b by (simp add: valid_index_def)
  from assms(2) i j k have nz: "[0, 0, 0, 1, 1, 1 :: real] ! l \<noteq> 0" unfolding b by (simp add: cell_def)
  show ?thesis
  proof
    assume "l < 3"
    then have "l = 0 \<or> l = 1 \<or> l = 2" by arith
    with nz show False by auto
  qed
qed

text \<open>
  C8. Two calls of label inference on the same image batch and mask batch return the same
  distribution when their noise draws are the same. More is true: the noise enters
  through the occluded cells only, so it is enough that the two draws agree on every cell
  where the mask is not 0; what the random source draws for the visible cells, and what it
  samples elsewhere, has no influence. The noise of the occluded cells does matter: on the
  example batch under the mask of the right half, the draw of noise 1 and the draw of
  noise 0 give different distributions.
\<close>

theorem infer_label_probs_deterministic:
  assumes "\<And>i j k l. valid_index msk (i, j, k, l) \<Longrightarrow> cell msk (i, j, k, l) \<noteq> 0 \<Longrightarrow>
             normal rnd i j k l = normal rnd' i j k l"
  shows "infer_label_probs ext rnd self x msk = infer_label_probs ext rnd' self x msk"
proof -
  have "t_mul (t_smul msk (noise_level ext)) (randn (normal rnd) (tensor_shape msk)) =
        t_mul (t_smul msk (noise_level ext)) (randn (normal rnd') (tensor_shape msk))"
    by (rule noise_term_occluded_only) (rule assms)
  then have "masked_input ext rnd x msk = masked_input ext rnd' x msk"
    by (simp add: masked_input_def)
  then show ?thesis by (simp add: infer_label_probs_def)
qed


theorem infer_label_probs_deterministic_witness:
  "normal noisy_rnd 0 0 0 0 \<noteq> normal other_noisy_rnd 0 0 0 0 \<and>
   multinomial_draw noisy_rnd 0 [] \<noteq> multinomial_draw other_noisy_rnd 0 [] \<and>
   infer_label_probs example_ext noisy_rnd example_inpainter
     [example_image, example_image] [right_half_mask, right_half_mask] =
   infer_label_probs example_ext other_noisy_rnd example_inpainter
     [example_image, example_image] [right_half_mask, right_half_mask] \<and>
   infer_label_probs example_ext noisy_rnd example_inpainter
     [example_image, example_image] [right_half_mask, right_half_mask] =
     Inr [renormalise (take_top_two (softmax [1 / 4, 1 / 20, 1 / 10])),
          renormalise (take_top_two (softmax [1 / 4, 1 / 20, 1 / 10]))] \<and>
   infer_label_probs example_ext example_rnd example_inpainter
     [example_image, example_image] [right_half_mask, right_half_mask] \<noteq>
   infer_label_probs example_ext noisy_rnd example_inpainter
     [example_image, example_image] [right_half_mask, right_half_mask]"
proof -
  have agree: "normal noisy_rnd i j k l = normal other_noisy_rnd i j k l"
    if "valid_index [right_half_mask, right_half_mask] (i, j, k, l)"
      and "cell [right_half_mask, right_half_mask] (i, j, k, l) \<noteq> 0" for i j k l
    using right_half_mask_cell [OF that] by (simp add: noisy_rnd_def other_noisy_rnd_def)
  have same: "infer_label_probs example_ext noisy_rnd example_inpainter
     [example_image, example_image] [right_half_mask, right_half_mask] =
   infer_label_probs example_ext other_noisy_rnd example_inpainter
     [example_image, example_image] [right_half_mask, right_half_mask]"
    by (rule infer_label_probs_deterministic) (rule agree)
  from renormalise_noisy obtain p q where q: "q \<noteq> 0"
    and r: "renormalise (take_top_two (softmax [1 / 4, 1 / 20, 1 / 10])) = [Fin p, Fin 0, Fin q]"
    by blast
  have differ: "infer_label_probs example_ext example_rnd example_inpainter
     [example_image, example_image] [right_half_mask, right_half_mask] \<noteq>
   infer_label_probs example_ext noisy_rnd example_inpainter
     [example_image, example_image] [right_half_mask, right_half_mask]"
    unfolding infer_zero_noise infer_noisy r using q by simp
  have "normal noisy_rnd 0 0 0 0 \<noteq> normal other_noisy_rnd 0 0 0 0"
    and "multinomial_draw noisy_rnd 0 [] \<noteq> multinomial_draw other_noisy_rnd 0 []"
    by (simp_all add: noisy_rnd_def other_noisy_rnd_def)
  with same differ infer_noisy show ?thesis by blast
qed

subsection \<open>The random mask\<close>

text \<open>
  C4. For every probability in [0, 1] and every image shape of \<open>h\<close> rows and \<open>w\<close> columns,
  \<open>random_mask\<close> returns, under the one leading axis that \<open>unsqueeze(0)\<close> adds, a grid
  of \<open>h\<close> rows of \<open>w\<close> cells each, and every cell is 0 or 1.
\<close>

theorem random_mask_shape_and_values:
  assumes "0 \<le> p" and "p \<le> 1"
  shows "\<exists>g. random_mask u (h, w) p = Inr [g] \<and> length g = h \<and>
           (\<forall>row \<in> set g. length row = w) \<and> binary_grid g"
  using assms by (auto simp: random_mask_def binomial1_def binary_grid_def)

theorem random_mask_shape_and_values_witness:
  "(0 :: real) \<le> 1 / 2 \<and> (1 / 2 :: real) \<le> 1 \<and>
   random_mask (\<lambda>r c. if c = 1 then 9 / 10 else 1 / 10) (2, 3) (1 / 2) = Inr [[[1, 0, 1], [1, 0, 1]]] \<and>
   length [[1, 0, 1], [1, 0, 1 :: real]] = 2 \<and>
   map length [[1, 0, 1], [1, 0, 1 :: real]] = [3, 3] \<and>
   binary_grid [[1, 0, 1], [1, 0, 1]]"
proof -
  have h: "(0 :: real) \<le> 1 / 2" "(1 / 2 :: real) \<le> 1" by simp_all
  have e: "random_mask (\<lambda>r c. if c = 1 then 9 / 10 else 1 / 10) (2, 3) (1 / 2) =
      Inr [[[1, 0, 1], [1, 0, 1]]]"
    by (simp add: random_mask_def binomial1_def upt_conv_Cons)
  from random_mask_shape_and_values [OF h, of "\<lambda>r c. if c = 1 then 9 / 10 else 1 / 10" 2 3]
  obtain g where g: "random_mask (\<lambda>r c. if c = 1 then 9 / 10 else 1 / 10) (2, 3) (1 / 2) = Inr [g]"
    and l: "length g = 2" and w: "\<forall>row \<in> set g. length row = 3" and b: "binary_grid g" by blast
  from g e have eq: "g = [[1, 0, 1], [1, 0, 1]]" by simp
  from w have "map length g = [3, 3]" unfolding eq by simp
  with e l b show ?thesis unfolding eq by simp
qed

end
